theory Spec2Isabelle
  imports Complex_Main "HOL-Library.Word"
begin

unbundle bit_operations_syntax

section \<open>Numbers of the C++ source\<close>

text \<open>
  A C++ \<open>float\<close> is an IEEE binary32 value: a finite value (the real number it denotes),
  plus or minus infinity, or a NaN. The sign of zero is not modelled. A sum or a product
  of two finite values is the exact real result rounded to the binary32 grid, to nearest
  with ties to even; float expressions are evaluated in binary32, one rounding for each
  operation. The functions below accept every real as a finite value; the values that a
  \<open>float\<close> can hold are those that rounding leaves unchanged.
\<close>

datatype cfloat = Finite real | PosInf | NegInf | NaN

text \<open>\<open>a < b\<close> on floats: false as soon as one side is a NaN.\<close>

fun fless :: "cfloat \<Rightarrow> cfloat \<Rightarrow> bool" where
  "fless NaN _ = False"
| "fless _ NaN = False"
| "fless (Finite a) (Finite b) = (a < b)"
| "fless PosInf _ = False"
| "fless _ PosInf = True"
| "fless _ NegInf = False"
| "fless NegInf _ = True"

text \<open>\<open>a <= b\<close> on floats.\<close>

fun fle :: "cfloat \<Rightarrow> cfloat \<Rightarrow> bool" where
  "fle NaN _ = False"
| "fle _ NaN = False"
| "fle (Finite a) (Finite b) = (a \<le> b)"
| "fle NegInf _ = True"
| "fle _ PosInf = True"
| "fle _ _ = False"

text \<open>\<open>a > b\<close> and \<open>a >= b\<close>.\<close>

definition fgt :: "cfloat \<Rightarrow> cfloat \<Rightarrow> bool" where
  "fgt a b = fless b a"

definition fge :: "cfloat \<Rightarrow> cfloat \<Rightarrow> bool" where
  "fge a b = fle b a"

text \<open>\<open>std::floor\<close> and \<open>std::ceil\<close>: infinities and NaN pass through.\<close>

fun ffloor :: "cfloat \<Rightarrow> cfloat" where
  "ffloor (Finite a) = Finite (of_int \<lfloor>a\<rfloor>)"
| "ffloor v = v"

fun fceil :: "cfloat \<Rightarrow> cfloat" where
  "fceil (Finite a) = Finite (of_int \<lceil>a\<rceil>)"
| "fceil v = v"

text \<open>\<open>FLT_MAX\<close> of \<open><cfloat>\<close>, the largest finite binary32 value.\<close>

definition FLT_MAX :: real where
  "FLT_MAX = (2 ^ 24 - 1) * 2 ^ 104"

text \<open>Rounding of a real to the nearest integer, a tie to the even one.\<close>

definition round_even :: "real \<Rightarrow> int" where
  "round_even r =
     (if r - of_int \<lfloor>r\<rfloor> < 1 / 2 then \<lfloor>r\<rfloor>
      else if 1 / 2 < r - of_int \<lfloor>r\<rfloor> then \<lfloor>r\<rfloor> + 1
      else if even \<lfloor>r\<rfloor> then \<lfloor>r\<rfloor> else \<lfloor>r\<rfloor> + 1)"

text \<open>
  The binade of a magnitude \<open>s\<close> that is counted in units of \<open>2^-149\<close>, the smallest
  positive binary32 value: the largest \<open>k\<close> up to 276 with \<open>2^k \<le> s\<close>, and 0 below 2.
  The largest finite values have \<open>k = 276\<close>.
\<close>

function binade_from :: "nat \<Rightarrow> real \<Rightarrow> nat" where
  "binade_from k s = (if k < 276 \<and> 2 ^ (k + 1) \<le> s then binade_from (k + 1) s else k)"
  by pat_completeness auto
termination
  by (relation "measure (\<lambda>(k, s). 276 - k)") auto

declare binade_from.simps [simp del]

definition binade :: "real \<Rightarrow> nat" where
  "binade s = binade_from 0 s"

text \<open>
  Rounding of a real to binary32. In binade \<open>k\<close> the grid has spacing \<open>2^(k - 23)\<close> units
  (24 significant bits; one unit for the subnormal values, \<open>k < 23\<close>); a result beyond
  \<open>FLT_MAX\<close> is an infinity.
\<close>

definition round32 :: "real \<Rightarrow> cfloat" where
  "round32 y =
     (let s = \<bar>y\<bar> * 2 ^ 149;
          q = 2 ^ (binade s - 23);
          v = of_int (round_even (s / q)) * q / 2 ^ 149
      in if FLT_MAX < v then (if y < 0 then NegInf else PosInf)
         else Finite (if y < 0 then - v else v))"

text \<open>\<open>x + y\<close> and \<open>x * y\<close> on floats.\<close>

fun fadd :: "cfloat \<Rightarrow> cfloat \<Rightarrow> cfloat" where
  "fadd NaN _ = NaN"
| "fadd _ NaN = NaN"
| "fadd (Finite a) (Finite b) = round32 (a + b)"
| "fadd PosInf NegInf = NaN"
| "fadd NegInf PosInf = NaN"
| "fadd PosInf _ = PosInf"
| "fadd _ PosInf = PosInf"
| "fadd NegInf _ = NegInf"
| "fadd _ NegInf = NegInf"

fun fmul :: "cfloat \<Rightarrow> cfloat \<Rightarrow> cfloat" where
  "fmul NaN _ = NaN"
| "fmul _ NaN = NaN"
| "fmul (Finite a) (Finite b) = round32 (a * b)"
| "fmul (Finite a) PosInf = (if a = 0 then NaN else if 0 < a then PosInf else NegInf)"
| "fmul (Finite a) NegInf = (if a = 0 then NaN else if 0 < a then NegInf else PosInf)"
| "fmul PosInf (Finite b) = (if b = 0 then NaN else if 0 < b then PosInf else NegInf)"
| "fmul NegInf (Finite b) = (if b = 0 then NaN else if 0 < b then NegInf else PosInf)"
| "fmul PosInf PosInf = PosInf"
| "fmul PosInf NegInf = NegInf"
| "fmul NegInf PosInf = NegInf"
| "fmul NegInf NegInf = PosInf"

text \<open>The operators \<open>+\<close> and \<open>*\<close> and the constants 0 and 1 at the type of floats.\<close>

instantiation cfloat :: "{plus, times, zero, one}"
begin

definition plus_cfloat :: "cfloat \<Rightarrow> cfloat \<Rightarrow> cfloat" where
  "plus_cfloat a b = fadd a b"

definition times_cfloat :: "cfloat \<Rightarrow> cfloat \<Rightarrow> cfloat" where
  "times_cfloat a b = fmul a b"

definition zero_cfloat :: cfloat where
  "zero_cfloat = Finite 0"

definition one_cfloat :: cfloat where
  "one_cfloat = Finite 1"

instance ..

end

text \<open>
  The range of a 32-bit \<open>int\<close>, and the conversion of a float to \<open>int\<close>
  (\<open>static_cast<int>\<close>, or the implicit conversion of an argument): the value is
  truncated towards zero; when the truncated value is not an \<open>int\<close>, or the float is
  not finite, the behaviour of the program is undefined, which is \<open>None\<close> here.
\<close>

definition INT_MIN :: int where
  "INT_MIN = - (2 ^ 31)"

definition INT_MAX :: int where
  "INT_MAX = 2 ^ 31 - 1"

definition in_int_range :: "int \<Rightarrow> bool" where
  "in_int_range i = (INT_MIN \<le> i \<and> i \<le> INT_MAX)"

definition trunc_real :: "real \<Rightarrow> int" where
  "trunc_real a = (if 0 \<le> a then \<lfloor>a\<rfloor> else \<lceil>a\<rceil>)"

fun float_to_int :: "cfloat \<Rightarrow> int option" where
  "float_to_int (Finite a) =
     (if in_int_range (trunc_real a) then Some (trunc_real a) else None)"
| "float_to_int v = None"

text \<open>\<open>r - l\<close> on \<open>int\<close>: signed overflow is undefined behaviour.\<close>

definition int_sub :: "int \<Rightarrow> int \<Rightarrow> int option" where
  "int_sub a b = (if in_int_range (a - b) then Some (a - b) else None)"

text \<open>The conversion of an \<open>int\<close> to \<open>float\<close>, for constants that a float holds exactly.\<close>

definition int_to_float :: "int \<Rightarrow> cfloat" where
  "int_to_float i = Finite (of_int i)"

section \<open>Geometry primitives\<close>

record 'a Point =
  px :: 'a
  py :: 'a

text \<open>The fields \<open>x\<close>, \<open>y\<close>, \<open>w\<close>, \<open>h\<close> of the struct \<open>Rect\<close>.\<close>

record Rect =
  rect_x :: cfloat
  rect_y :: cfloat
  rect_w :: cfloat
  rect_h :: cfloat

text \<open>\<open>const Rect Rect::Empty(0, 0, 0, 0)\<close> and \<open>const Rect Rect::Invalid(0, 0, -1, -1)\<close>.\<close>

definition Rect_Empty :: Rect where
  "Rect_Empty = \<lparr>rect_x = Finite 0, rect_y = Finite 0, rect_w = Finite 0, rect_h = Finite 0\<rparr>"

definition Rect_Invalid :: Rect where
  "Rect_Invalid = \<lparr>rect_x = Finite 0, rect_y = Finite 0, rect_w = Finite (- 1), rect_h = Finite (- 1)\<rparr>"

text \<open>
  Modelled from the spec: \<open>Rect::isValid\<close> is declared in the header \<open>graphics.h\<close>,
  which is not among the sources; the spec says that a rect is valid iff \<open>w \<ge> 0\<close> and
  \<open>h \<ge> 0\<close>.
\<close>

definition Rect_isValid :: "Rect \<Rightarrow> bool" where
  "Rect_isValid r = (fge (rect_w r) (Finite 0) \<and> fge (rect_h r) (Finite 0))"

section \<open>Transform\<close>

text \<open>
  \<open>plutovg_matrix_t\<close>: the six coefficients \<open>a\<close> to \<open>f\<close>. The record and the functions
  on it are polymorphic in the type of the coefficients, with that type's \<open>+\<close> and \<open>*\<close>:
  at the type of floats they are the rounded operations of the program, at the type of
  reals they are exact.
\<close>

record 'a plutovg_matrix =
  m_a :: 'a
  m_b :: 'a
  m_c :: 'a
  m_d :: 'a
  m_e :: 'a
  m_f :: 'a

text \<open>\<open>const Transform Transform::Identity(1, 0, 0, 1, 0, 0)\<close>.\<close>

definition Transform_Identity :: "'a::{zero,one} plutovg_matrix" where
  "Transform_Identity = \<lparr>m_a = 1, m_b = 0, m_c = 0, m_d = 1, m_e = 0, m_f = 0\<rparr>"

text \<open>
  Modelled from the spec: \<open>plutovg_matrix_map\<close> is not among the sources. The spec gives
  the six coefficients as the matrix with rows \<open>(a, c, e)\<close>, \<open>(b, d, f)\<close>, \<open>(0, 0, 1)\<close>, which maps the column
  vector \<open>(x, y, 1)\<close>.
\<close>

definition plutovg_matrix_map :: "'a::{plus,times} plutovg_matrix \<Rightarrow> 'a \<Rightarrow> 'a \<Rightarrow> 'a \<times> 'a" where
  "plutovg_matrix_map matrix x y =
     (m_a matrix * x + m_c matrix * y + m_e matrix,
      m_b matrix * x + m_d matrix * y + m_f matrix)"

text \<open>
  Modelled from the spec: \<open>plutovg_matrix_multiply(result, left, right)\<close> is not among the
  sources. The spec says that \<open>multiply(T)\<close> redefines \<open>self := self \<circ> T\<close>, and the
  source computes it as \<open>plutovg_matrix_multiply(&result, &T, &self)\<close>: the result for
  \<open>(left, right)\<close> is the matrix of \<open>right \<circ> left\<close>, the product of the two
  \<open>3 \<times> 3\<close> matrices with the matrix of \<open>right\<close> on the left.
\<close>

definition plutovg_matrix_multiply ::
  "'a::{plus,times} plutovg_matrix \<Rightarrow> 'a plutovg_matrix \<Rightarrow> 'a plutovg_matrix" where
  "plutovg_matrix_multiply left right =
     \<lparr>m_a = m_a right * m_a left + m_c right * m_b left,
      m_b = m_b right * m_a left + m_d right * m_b left,
      m_c = m_a right * m_c left + m_c right * m_d left,
      m_d = m_b right * m_c left + m_d right * m_d left,
      m_e = m_a right * m_e left + m_c right * m_f left + m_e right,
      m_f = m_b right * m_e left + m_d right * m_f left + m_f right\<rparr>"

text \<open>
  A \<open>Transform\<close> holds one \<open>plutovg_matrix_t\<close>, \<open>m_matrix\<close>. \<open>Transform::operator*\<close>
  passes the argument as \<open>left\<close> and its own matrix as \<open>right\<close>.
\<close>

definition Transform_times :: "'a::{plus,times} plutovg_matrix \<Rightarrow> 'a plutovg_matrix \<Rightarrow> 'a plutovg_matrix" where
  "Transform_times this transform = plutovg_matrix_multiply transform this"

text \<open>\<open>Transform::multiply\<close>: \<open>*this = *this * transform\<close>; the result is the new \<open>*this\<close>.\<close>

definition Transform_multiply :: "'a::{plus,times} plutovg_matrix \<Rightarrow> 'a plutovg_matrix \<Rightarrow> 'a plutovg_matrix" where
  "Transform_multiply this transform = Transform_times this transform"

text \<open>\<open>Transform::postMultiply\<close>: \<open>*this = transform * *this\<close>.\<close>

definition Transform_postMultiply :: "'a::{plus,times} plutovg_matrix \<Rightarrow> 'a plutovg_matrix \<Rightarrow> 'a plutovg_matrix" where
  "Transform_postMultiply this transform = Transform_times transform this"

text \<open>\<open>Transform::mapPoint\<close>, both overloads.\<close>

definition Transform_mapPoint_xy :: "'a::{plus,times} plutovg_matrix \<Rightarrow> 'a \<Rightarrow> 'a \<Rightarrow> 'a Point" where
  "Transform_mapPoint_xy this x y =
     (case plutovg_matrix_map this x y of (x', y') \<Rightarrow> \<lparr>px = x', py = y'\<rparr>)"

definition Transform_mapPoint :: "'a::{plus,times} plutovg_matrix \<Rightarrow> 'a Point \<Rightarrow> 'a Point" where
  "Transform_mapPoint this point = Transform_mapPoint_xy this (px point) (py point)"

text \<open>
  \<open>Transform::mapRect\<close>. The backend function \<open>plutovg_matrix_map_rect\<close> is a
  parameter: it is only reached for a valid rect.
\<close>

definition Transform_mapRect ::
  "('m \<Rightarrow> Rect \<Rightarrow> Rect) \<Rightarrow> 'm \<Rightarrow> Rect \<Rightarrow> Rect" where
  "Transform_mapRect plutovg_matrix_map_rect m_matrix rect =
     (if \<not> Rect_isValid rect then Rect_Invalid
      else plutovg_matrix_map_rect m_matrix rect)"

section \<open>Path: a reference-counted element buffer\<close>

text \<open>
  \<open>plutovg_path_command_t\<close>, and one slot of the element buffer. The slot type
  \<open>plutovg_path_element_t\<close> is a union of a header (a command and a length) and a point;
  the member that a slot holds is explicit here.
\<close>

datatype path_command = MoveTo | LineTo | CubicTo | Close

datatype path_element = Header path_command int | Pt "cfloat Point"

text \<open>
  A \<open>plutovg_path_t\<close> is a reference count and the element buffer. A \<open>plutovg_path_t*\<close>
  is an index into the list of all buffers allocated so far (the heap); a \<open>Path\<close> object
  is its one field \<open>m_data\<close>, such an index. A buffer whose count has dropped to zero has
  been freed; its index is not used again.
\<close>

record plutovg_path =
  ref_count :: int
  elements :: "path_element list"

type_synonym path_heap = "plutovg_path list"

text \<open>
  Modelled from the spec: the reference-counting primitives of the backend are not among
  the sources. The spec describes an arena of command buffers indexed by handle, each with
  a reference count: sharing increments the count, dropping a reference decrements it,
  and a clone is a new buffer with the same contents and count 1.
\<close>

definition plutovg_path_reference :: "path_heap \<Rightarrow> nat \<Rightarrow> path_heap \<times> nat" where
  "plutovg_path_reference hp path =
     (hp[path := (hp ! path)\<lparr>ref_count := ref_count (hp ! path) + 1\<rparr>], path)"

definition plutovg_path_destroy :: "path_heap \<Rightarrow> nat \<Rightarrow> path_heap" where
  "plutovg_path_destroy hp path =
     hp[path := (hp ! path)\<lparr>ref_count := ref_count (hp ! path) - 1\<rparr>]"

definition plutovg_path_get_reference_count :: "path_heap \<Rightarrow> nat \<Rightarrow> int" where
  "plutovg_path_get_reference_count hp path = ref_count (hp ! path)"

definition plutovg_path_clone :: "path_heap \<Rightarrow> nat \<Rightarrow> path_heap \<times> nat" where
  "plutovg_path_clone hp path =
     (hp @ [\<lparr>ref_count = 1, elements = elements (hp ! path)\<rparr>], length hp)"

definition plutovg_path_get_elements :: "path_heap \<Rightarrow> nat \<Rightarrow> path_element list" where
  "plutovg_path_get_elements hp path = elements (hp ! path)"

text \<open>
  The functions of the backend that build, clear, parse and measure a path are not among
  the sources either. They are parameters of the model: what a call does to the element
  buffer it is given is an arbitrary function of the call and of the buffer's contents.
  A call works on the one buffer whose pointer it receives.
\<close>

datatype plutovg_path_call =
    Move_to cfloat cfloat
  | Line_to cfloat cfloat
  | Quad_to cfloat cfloat cfloat cfloat
  | Cubic_to cfloat cfloat cfloat cfloat cfloat cfloat
  | Arc_to cfloat cfloat cfloat bool bool cfloat cfloat
  | Close_path
  | Add_ellipse cfloat cfloat cfloat cfloat
  | Add_round_rect cfloat cfloat cfloat cfloat cfloat cfloat
  | Add_rect cfloat cfloat cfloat cfloat
  | Reset

record plutovg_backend =
  path_call :: "plutovg_path_call \<Rightarrow> path_element list \<Rightarrow> path_element list"
  path_parse :: "string \<Rightarrow> path_element list \<Rightarrow> bool \<times> path_element list"
  path_extents :: "path_element list \<Rightarrow> Rect"
  DEG2RAD :: "cfloat \<Rightarrow> cfloat"

definition plutovg_path_apply ::
  "plutovg_backend \<Rightarrow> path_heap \<Rightarrow> nat \<Rightarrow> plutovg_path_call \<Rightarrow> path_heap" where
  "plutovg_path_apply B hp path call =
     hp[path := (hp ! path)\<lparr>elements := path_call B call (elements (hp ! path))\<rparr>]"

definition plutovg_path_parse ::
  "plutovg_backend \<Rightarrow> path_heap \<Rightarrow> nat \<Rightarrow> string \<Rightarrow> bool \<times> path_heap" where
  "plutovg_path_parse B hp path text =
     (case path_parse B text (elements (hp ! path)) of
        (ok, es) \<Rightarrow> (ok, hp[path := (hp ! path)\<lparr>elements := es\<rparr>]))"

definition plutovg_path_extents :: "plutovg_backend \<Rightarrow> path_heap \<Rightarrow> nat \<Rightarrow> Rect" where
  "plutovg_path_extents B hp path = path_extents B (elements (hp ! path))"

subsection \<open>The class \<open>Path\<close>\<close>

text \<open>
  Every member function takes the heap and the object's \<open>m_data\<close> (\<open>this\<close>) and returns
  the new heap and, where it can change, the new \<open>m_data\<close>.
\<close>

text \<open>\<open>Path::Path(const Path&)\<close>: the new object's \<open>m_data\<close>.\<close>

definition Path_copy :: "path_heap \<Rightarrow> nat \<Rightarrow> path_heap \<times> nat" where
  "Path_copy hp path = plutovg_path_reference hp path"

text \<open>\<open>Path::~Path\<close>.\<close>

definition Path_destructor :: "path_heap \<Rightarrow> nat \<Rightarrow> path_heap" where
  "Path_destructor hp this = plutovg_path_destroy hp this"

text \<open>
  \<open>Path::operator=(const Path&)\<close>: \<open>Path(path).swap(*this)\<close>. A temporary copy is made,
  its \<open>m_data\<close> is exchanged with that of \<open>*this\<close> (\<open>swap\<close> is declared in the header), and
  the temporary, which now holds the old buffer, is destroyed.
\<close>

definition Path_assign :: "path_heap \<Rightarrow> nat \<Rightarrow> nat \<Rightarrow> path_heap \<times> nat" where
  "Path_assign hp this path =
     (case Path_copy hp path of
        (hp1, tmp) \<Rightarrow>
          (case (this, tmp) of
             (tmp', this') \<Rightarrow> (Path_destructor hp1 tmp', this')))"

text \<open>\<open>Path::isUnique\<close> and \<open>Path::ensure\<close>.\<close>

definition Path_isUnique :: "path_heap \<Rightarrow> nat \<Rightarrow> bool" where
  "Path_isUnique hp this = (plutovg_path_get_reference_count hp this = 1)"

definition Path_ensure :: "path_heap \<Rightarrow> nat \<Rightarrow> path_heap \<times> nat" where
  "Path_ensure hp this =
     (if \<not> Path_isUnique hp this then plutovg_path_clone hp this else (hp, this))"

text \<open>The mutating member functions: each calls \<open>ensure()\<close> and hands its result to the backend.\<close>

definition Path_moveTo ::
  "plutovg_backend \<Rightarrow> path_heap \<Rightarrow> nat \<Rightarrow> cfloat \<Rightarrow> cfloat \<Rightarrow> path_heap \<times> nat" where
  "Path_moveTo B hp this x y =
     (case Path_ensure hp this of
        (hp1, m_data) \<Rightarrow> (plutovg_path_apply B hp1 m_data (Move_to x y), m_data))"

definition Path_lineTo ::
  "plutovg_backend \<Rightarrow> path_heap \<Rightarrow> nat \<Rightarrow> cfloat \<Rightarrow> cfloat \<Rightarrow> path_heap \<times> nat" where
  "Path_lineTo B hp this x y =
     (case Path_ensure hp this of
        (hp1, m_data) \<Rightarrow> (plutovg_path_apply B hp1 m_data (Line_to x y), m_data))"

definition Path_quadTo ::
  "plutovg_backend \<Rightarrow> path_heap \<Rightarrow> nat \<Rightarrow> cfloat \<Rightarrow> cfloat \<Rightarrow> cfloat \<Rightarrow> cfloat \<Rightarrow> path_heap \<times> nat" where
  "Path_quadTo B hp this x1 y1 x2 y2 =
     (case Path_ensure hp this of
        (hp1, m_data) \<Rightarrow> (plutovg_path_apply B hp1 m_data (Quad_to x1 y1 x2 y2), m_data))"

definition Path_cubicTo ::
  "plutovg_backend \<Rightarrow> path_heap \<Rightarrow> nat \<Rightarrow> cfloat \<Rightarrow> cfloat \<Rightarrow> cfloat \<Rightarrow> cfloat \<Rightarrow> cfloat \<Rightarrow> cfloat
     \<Rightarrow> path_heap \<times> nat" where
  "Path_cubicTo B hp this x1 y1 x2 y2 x3 y3 =
     (case Path_ensure hp this of
        (hp1, m_data) \<Rightarrow> (plutovg_path_apply B hp1 m_data (Cubic_to x1 y1 x2 y2 x3 y3), m_data))"

definition Path_arcTo ::
  "plutovg_backend \<Rightarrow> path_heap \<Rightarrow> nat \<Rightarrow> cfloat \<Rightarrow> cfloat \<Rightarrow> cfloat \<Rightarrow> bool \<Rightarrow> bool \<Rightarrow> cfloat \<Rightarrow> cfloat
     \<Rightarrow> path_heap \<times> nat" where
  "Path_arcTo B hp this rx ry xAxisRotation largeArcFlag sweepFlag x y =
     (case Path_ensure hp this of
        (hp1, m_data) \<Rightarrow>
          (plutovg_path_apply B hp1 m_data
             (Arc_to rx ry (DEG2RAD B xAxisRotation) largeArcFlag sweepFlag x y), m_data))"

definition Path_close :: "plutovg_backend \<Rightarrow> path_heap \<Rightarrow> nat \<Rightarrow> path_heap \<times> nat" where
  "Path_close B hp this =
     (case Path_ensure hp this of
        (hp1, m_data) \<Rightarrow> (plutovg_path_apply B hp1 m_data Close_path, m_data))"

definition Path_addEllipse ::
  "plutovg_backend \<Rightarrow> path_heap \<Rightarrow> nat \<Rightarrow> cfloat \<Rightarrow> cfloat \<Rightarrow> cfloat \<Rightarrow> cfloat \<Rightarrow> path_heap \<times> nat" where
  "Path_addEllipse B hp this cx cy rx ry =
     (case Path_ensure hp this of
        (hp1, m_data) \<Rightarrow> (plutovg_path_apply B hp1 m_data (Add_ellipse cx cy rx ry), m_data))"

definition Path_addRoundRect ::
  "plutovg_backend \<Rightarrow> path_heap \<Rightarrow> nat \<Rightarrow> cfloat \<Rightarrow> cfloat \<Rightarrow> cfloat \<Rightarrow> cfloat \<Rightarrow> cfloat \<Rightarrow> cfloat
     \<Rightarrow> path_heap \<times> nat" where
  "Path_addRoundRect B hp this x y w h rx ry =
     (case Path_ensure hp this of
        (hp1, m_data) \<Rightarrow> (plutovg_path_apply B hp1 m_data (Add_round_rect x y w h rx ry), m_data))"

definition Path_addRect ::
  "plutovg_backend \<Rightarrow> path_heap \<Rightarrow> nat \<Rightarrow> cfloat \<Rightarrow> cfloat \<Rightarrow> cfloat \<Rightarrow> cfloat \<Rightarrow> path_heap \<times> nat" where
  "Path_addRect B hp this x y w h =
     (case Path_ensure hp this of
        (hp1, m_data) \<Rightarrow> (plutovg_path_apply B hp1 m_data (Add_rect x y w h), m_data))"

definition Path_reset :: "plutovg_backend \<Rightarrow> path_heap \<Rightarrow> nat \<Rightarrow> path_heap \<times> nat" where
  "Path_reset B hp this =
     (case Path_ensure hp this of
        (hp1, m_data) \<Rightarrow> (plutovg_path_apply B hp1 m_data Reset, m_data))"

text \<open>
  \<open>Path::parse\<close>: \<open>plutovg_path_reset(ensure()); return plutovg_path_parse(ensure(), data, length);\<close>
  The text is the \<open>length\<close> characters at \<open>data\<close>.
\<close>

definition Path_parse ::
  "plutovg_backend \<Rightarrow> path_heap \<Rightarrow> nat \<Rightarrow> string \<Rightarrow> bool \<times> path_heap \<times> nat" where
  "Path_parse B hp this text =
     (case Path_ensure hp this of
        (hp1, m_data1) \<Rightarrow>
          (case Path_ensure (plutovg_path_apply B hp1 m_data1 Reset) m_data1 of
             (hp2, m_data2) \<Rightarrow>
               (case plutovg_path_parse B hp2 m_data2 text of
                  (ok, hp3) \<Rightarrow> (ok, hp3, m_data2))))"

text \<open>\<open>Path::boundingRect\<close> and the command sequence that a \<open>Path\<close> holds.\<close>

definition Path_boundingRect :: "plutovg_backend \<Rightarrow> path_heap \<Rightarrow> nat \<Rightarrow> Rect" where
  "Path_boundingRect B hp this = plutovg_path_extents B hp this"

definition Path_elements :: "path_heap \<Rightarrow> nat \<Rightarrow> path_element list" where
  "Path_elements hp this = plutovg_path_get_elements hp this"

text \<open>One call of a mutating member function, with its arguments.\<close>

datatype path_mutation =
    Call_moveTo cfloat cfloat
  | Call_lineTo cfloat cfloat
  | Call_quadTo cfloat cfloat cfloat cfloat
  | Call_cubicTo cfloat cfloat cfloat cfloat cfloat cfloat
  | Call_arcTo cfloat cfloat cfloat bool bool cfloat cfloat
  | Call_close
  | Call_addEllipse cfloat cfloat cfloat cfloat
  | Call_addRoundRect cfloat cfloat cfloat cfloat cfloat cfloat
  | Call_addRect cfloat cfloat cfloat cfloat
  | Call_reset
  | Call_parse string

fun Path_mutate :: "plutovg_backend \<Rightarrow> path_heap \<Rightarrow> nat \<Rightarrow> path_mutation \<Rightarrow> path_heap \<times> nat" where
  "Path_mutate B hp this (Call_moveTo x y) = Path_moveTo B hp this x y"
| "Path_mutate B hp this (Call_lineTo x y) = Path_lineTo B hp this x y"
| "Path_mutate B hp this (Call_quadTo x1 y1 x2 y2) = Path_quadTo B hp this x1 y1 x2 y2"
| "Path_mutate B hp this (Call_cubicTo x1 y1 x2 y2 x3 y3) = Path_cubicTo B hp this x1 y1 x2 y2 x3 y3"
| "Path_mutate B hp this (Call_arcTo rx ry rot large sweep x y) =
     Path_arcTo B hp this rx ry rot large sweep x y"
| "Path_mutate B hp this Call_close = Path_close B hp this"
| "Path_mutate B hp this (Call_addEllipse cx cy rx ry) = Path_addEllipse B hp this cx cy rx ry"
| "Path_mutate B hp this (Call_addRoundRect x y w h rx ry) = Path_addRoundRect B hp this x y w h rx ry"
| "Path_mutate B hp this (Call_addRect x y w h) = Path_addRect B hp this x y w h"
| "Path_mutate B hp this Call_reset = Path_reset B hp this"
| "Path_mutate B hp this (Call_parse text) = snd (Path_parse B hp this text)"

text \<open>A sequence of such calls on one \<open>Path\<close> object, first call first.\<close>

fun Path_mutate_all ::
  "plutovg_backend \<Rightarrow> path_heap \<Rightarrow> nat \<Rightarrow> path_mutation list \<Rightarrow> path_heap \<times> nat" where
  "Path_mutate_all B hp this [] = (hp, this)"
| "Path_mutate_all B hp this (m # ms) =
     (case Path_mutate B hp this m of (hp1, this1) \<Rightarrow> Path_mutate_all B hp1 this1 ms)"

text \<open>
  The common shape of the mutating member functions but \<open>parse\<close>: \<open>ensure()\<close>, then one
  call of the backend on the buffer that \<open>ensure()\<close> returned.
\<close>

definition ensure_then ::
  "plutovg_backend \<Rightarrow> path_heap \<Rightarrow> nat \<Rightarrow> plutovg_path_call \<Rightarrow> path_heap \<times> nat" where
  "ensure_then B hp this call =
     (case Path_ensure hp this of (hp1, d) \<Rightarrow> (plutovg_path_apply B hp1 d call, d))"

text \<open>
  The two ways in which a mutating call can leave the heap: \<open>(hp2, d)\<close> is the heap and
  the object's \<open>m_data\<close> after the call on \<open>this\<close> in \<open>hp\<close>, for some new contents \<open>es\<close>.
\<close>

definition detached :: "path_heap \<Rightarrow> nat \<Rightarrow> path_heap \<Rightarrow> nat \<Rightarrow> bool" where
  "detached hp this hp2 d =
     (\<exists>es. (ref_count (hp ! this) = 1 \<and> d = this
            \<and> hp2 = hp[this := (hp ! this)\<lparr>elements := es\<rparr>])
         \<or> (ref_count (hp ! this) \<noteq> 1 \<and> d = length hp
            \<and> hp2 = hp @ [\<lparr>ref_count = 1, elements = es\<rparr>]))"

text \<open>
  The \<open>Path\<close> objects alive at some moment, as the list of their \<open>m_data\<close>. Each object
  holds one reference to its buffer: every buffer is allocated and its count is at least
  the number of objects that point to it.
\<close>

definition paths_alive :: "path_heap \<Rightarrow> nat list \<Rightarrow> bool" where
  "paths_alive hp ps =
     list_all (\<lambda>p. p < length hp \<and> int (count_list ps p) \<le> ref_count (hp ! p)) ps"

text \<open>
  Modelled from the spec: \<open>plutovg_path_reset\<close> and \<open>plutovg_path_parse\<close> are not among
  the sources. The spec says that a reset clears all commands, and that parsing fails
  (returns false) on malformed text and then leaves the path in a reset (empty) state
  rather than partially populated: a failed parse adds nothing to the buffer it was
  given. The grammar is a parameter: the commands that a well-formed text denotes, and
  \<open>None\<close> for a malformed text.
\<close>

definition spec_path_call ::
  "(plutovg_path_call \<Rightarrow> path_element list \<Rightarrow> path_element list)
     \<Rightarrow> plutovg_path_call \<Rightarrow> path_element list \<Rightarrow> path_element list" where
  "spec_path_call other call es = (case call of Reset \<Rightarrow> [] | _ \<Rightarrow> other call es)"

definition spec_path_parse ::
  "(string \<Rightarrow> path_element list option) \<Rightarrow> string \<Rightarrow> path_element list
     \<Rightarrow> bool \<times> path_element list" where
  "spec_path_parse grammar text es =
     (case grammar text of None \<Rightarrow> (False, es) | Some cmds \<Rightarrow> (True, es @ cmds))"

definition spec_backend ::
  "(string \<Rightarrow> path_element list option) \<Rightarrow> plutovg_backend \<Rightarrow> plutovg_backend" where
  "spec_backend grammar B =
     B\<lparr>path_call := spec_path_call (path_call B), path_parse := spec_path_parse grammar\<rparr>"

section \<open>PathIterator\<close>

text \<open>
  The cursor: the element buffer of the path, the number of its slots and the index of
  the current slot. The constructor reads both from \<open>plutovg_path_get_elements\<close>.
\<close>

record PathIterator =
  m_elements :: "path_element list"
  m_size :: int
  m_index :: int

definition PathIterator_new :: "path_heap \<Rightarrow> nat \<Rightarrow> PathIterator" where
  "PathIterator_new hp path =
     \<lparr>m_elements = plutovg_path_get_elements hp path,
      m_size = int (length (plutovg_path_get_elements hp path)),
      m_index = 0\<rparr>"

text \<open>
  Reading \<open>m_elements[i].header\<close> and \<open>m_elements[i].point\<close>: \<open>None\<close> when \<open>i\<close> is outside
  the buffer or when the slot holds the other member of the union.
\<close>

definition element_at :: "path_element list \<Rightarrow> int \<Rightarrow> path_element option" where
  "element_at es i = (if 0 \<le> i \<and> i < int (length es) then Some (es ! nat i) else None)"

definition header_at :: "path_element list \<Rightarrow> int \<Rightarrow> (path_command \<times> int) option" where
  "header_at es i =
     (case element_at es i of Some (Header command len) \<Rightarrow> Some (command, len) | _ \<Rightarrow> None)"

definition point_at :: "path_element list \<Rightarrow> int \<Rightarrow> cfloat Point option" where
  "point_at es i = (case element_at es i of Some (Pt p) \<Rightarrow> Some p | _ \<Rightarrow> None)"

text \<open>
  \<open>PathIterator::currentSegment\<close>: the array \<open>points\<close> of three points is passed by
  reference; the result is the command and the array after the call.
\<close>

definition PathIterator_currentSegment ::
  "PathIterator \<Rightarrow> cfloat Point list \<Rightarrow> (path_command \<times> cfloat Point list) option" where
  "PathIterator_currentSegment it points =
     (case header_at (m_elements it) (m_index it) of
        None \<Rightarrow> None
      | Some (command, len) \<Rightarrow>
          (case command of
             MoveTo \<Rightarrow>
               (case point_at (m_elements it) (m_index it + 1) of
                  None \<Rightarrow> None
                | Some p0 \<Rightarrow> Some (command, points[0 := p0]))
           | LineTo \<Rightarrow>
               (case point_at (m_elements it) (m_index it + 1) of
                  None \<Rightarrow> None
                | Some p0 \<Rightarrow> Some (command, points[0 := p0]))
           | CubicTo \<Rightarrow>
               (case point_at (m_elements it) (m_index it + 1) of
                  None \<Rightarrow> None
                | Some p0 \<Rightarrow>
                    (case point_at (m_elements it) (m_index it + 2) of
                       None \<Rightarrow> None
                     | Some p1 \<Rightarrow>
                         (case point_at (m_elements it) (m_index it + 3) of
                            None \<Rightarrow> None
                          | Some p2 \<Rightarrow> Some (command, points[0 := p0, 1 := p1, 2 := p2]))))
           | Close \<Rightarrow>
               (case point_at (m_elements it) (m_index it + 1) of
                  None \<Rightarrow> None
                | Some p0 \<Rightarrow> Some (command, points[0 := p0]))))"

text \<open>\<open>PathIterator::next\<close>: \<open>m_index += m_elements[m_index].header.length\<close>.\<close>

definition PathIterator_next :: "PathIterator \<Rightarrow> PathIterator option" where
  "PathIterator_next it =
     (case header_at (m_elements it) (m_index it) of
        None \<Rightarrow> None
      | Some (command, len) \<Rightarrow> Some (it\<lparr>m_index := m_index it + len\<rparr>))"

text \<open>
  Modelled from the spec: the end test of the iterator is declared in the header, which is
  not among the sources. The spec says that the iterator produces a finite sequence: it is
  done when the cursor has reached the number of slots.
\<close>

definition PathIterator_isDone :: "PathIterator \<Rightarrow> bool" where
  "PathIterator_isDone it = (m_index it \<ge> m_size it)"

text \<open>The number of slots after the header that \<open>currentSegment\<close> reads for a command.\<close>

fun points_read :: "path_command \<Rightarrow> int" where
  "points_read MoveTo = 1"
| "points_read LineTo = 1"
| "points_read CubicTo = 3"
| "points_read Close = 1"

subsection \<open>The layout of the element buffer\<close>

text \<open>
  Modelled from the spec: the functions of the backend that write the element buffer are
  not among the sources. The spec describes a path as a sequence of drawing commands
  (move, line, cubic, close) in a buffer with a variable-length encoding, of which the
  iterator yields each command with up to three points. \<open>PathIterator::currentSegment\<close>
  reads the command from the header in the slot at the cursor and its points from the
  slots right after it, and \<open>PathIterator::next\<close> moves the cursor by the length in that
  header. So a command is stored as its header followed by its points, and the length in
  the header is the number of slots of the command, its header included.
\<close>

type_synonym path_segment = "path_command \<times> cfloat Point list"

definition encode_segment :: "path_segment \<Rightarrow> path_element list" where
  "encode_segment seg = Header (fst seg) (1 + int (length (snd seg))) # map Pt (snd seg)"

definition encode_path :: "path_segment list \<Rightarrow> path_element list" where
  "encode_path segs = concat (map encode_segment segs)"

text \<open>A command carries as many points as \<open>currentSegment\<close> reads for it.\<close>

definition segment_ok :: "path_segment \<Rightarrow> bool" where
  "segment_ok seg = (int (length (snd seg)) = points_read (fst seg))"

text \<open>
  The iterator over the buffer of the commands \<open>pre @ rest\<close> whose cursor is on the first
  slot of \<open>rest\<close>: the commands \<open>pre\<close> are behind the cursor.
\<close>

definition iterator_at :: "path_segment list \<Rightarrow> path_segment list \<Rightarrow> PathIterator" where
  "iterator_at pre rest =
     \<lparr>m_elements = encode_path (pre @ rest), m_size = int (length (encode_path (pre @ rest))),
      m_index = int (length (encode_path pre))\<rparr>"

text \<open>
  The loop of a caller, \<open>while(!it.isDone()) { it.currentSegment(points); ...; it.next(); }\<close>,
  with the array \<open>points\<close> kept across the rounds. It collects each command with the points
  that were read for it. The loop is cut after \<open>n\<close> rounds: \<open>None\<close> when it has not come to
  the end by then, or when a read leaves the buffer or meets the wrong member of the union.
\<close>

fun traverse ::
  "nat \<Rightarrow> PathIterator \<Rightarrow> cfloat Point list \<Rightarrow> (path_command \<times> cfloat Point list) list option" where
  "traverse n it points =
     (if PathIterator_isDone it then Some []
      else case n of
        0 \<Rightarrow> None
      | Suc k \<Rightarrow>
          (case PathIterator_currentSegment it points of
             None \<Rightarrow> None
           | Some (command, points') \<Rightarrow>
               (case PathIterator_next it of
                  None \<Rightarrow> None
                | Some it' \<Rightarrow>
                    map_option (\<lambda>segs. (command, take (nat (points_read command)) points') # segs)
                      (traverse k it' points'))))"

declare traverse.simps [simp del]

section \<open>Canvas\<close>

text \<open>
  A \<open>plutovg_surface_t\<close>: width and height in pixels, the stride (bytes from one row to
  the next) and the pixel data. The code reads the data as \<open>uint32_t\<close> pixels, so the data
  is the list of the 32-bit words of the buffer: the word at byte offset \<open>4 * i\<close> has
  index \<open>i\<close>. The four getters of the backend are the fields.
\<close>

record plutovg_surface =
  s_width :: int
  s_height :: int
  s_stride :: int
  s_data :: "32 word list"

text \<open>
  Modelled from the spec: \<open>plutovg_surface_create\<close> is not among the sources. The spec
  says that a canvas owns one pixel surface of width times height pixels; the fresh surface
  has the requested width and height, rows of 4-byte pixels without padding, and pixels
  whose initial value plays no role (zero here).
\<close>

definition plutovg_surface_create :: "int \<Rightarrow> int \<Rightarrow> plutovg_surface" where
  "plutovg_surface_create width height =
     \<lparr>s_width = width, s_height = height, s_stride = 4 * width,
      s_data = replicate (nat (width * height)) 0\<rparr>"

text \<open>
  A \<open>Canvas\<close>: the surface and the origin. The member \<open>m_canvas\<close>, the drawing context of
  the backend, plays no role in the functions embedded here.
\<close>

record Canvas =
  m_surface :: plutovg_surface
  m_x :: int
  m_y :: int

text \<open>\<open>Canvas::Canvas(int x, int y, int width, int height)\<close>, \<open>Canvas::width\<close>, \<open>Canvas::height\<close>.\<close>

definition Canvas_new :: "int \<Rightarrow> int \<Rightarrow> int \<Rightarrow> int \<Rightarrow> Canvas" where
  "Canvas_new x y width height =
     \<lparr>m_surface = plutovg_surface_create width height, m_x = x, m_y = y\<rparr>"

definition Canvas_width :: "Canvas \<Rightarrow> int" where
  "Canvas_width canvas = s_width (m_surface canvas)"

definition Canvas_height :: "Canvas \<Rightarrow> int" where
  "Canvas_height canvas = s_height (m_surface canvas)"

text \<open>\<open>constexpr int kMaxSize = 1 << 24\<close>.\<close>

definition kMaxSize :: int where
  "kMaxSize = 2 ^ 24"

text \<open>
  \<open>Canvas::create(float x, float y, float width, float height)\<close>. \<open>None\<close> is undefined
  behaviour (a conversion to \<open>int\<close> out of range, or overflow of the subtraction).
\<close>

definition Canvas_create :: "cfloat \<Rightarrow> cfloat \<Rightarrow> cfloat \<Rightarrow> cfloat \<Rightarrow> Canvas option" where
  "Canvas_create x y width height =
     (if fle width (Finite 0) \<or> fle height (Finite 0)
         \<or> fgt width (int_to_float kMaxSize) \<or> fgt height (int_to_float kMaxSize)
      then Some (Canvas_new 0 0 1 1)
      else
        (case float_to_int (ffloor x) of None \<Rightarrow> None | Some l \<Rightarrow>
        (case float_to_int (ffloor y) of None \<Rightarrow> None | Some t \<Rightarrow>
        (case float_to_int (fceil (fadd x width)) of None \<Rightarrow> None | Some r \<Rightarrow>
        (case float_to_int (fceil (fadd y height)) of None \<Rightarrow> None | Some b \<Rightarrow>
        (case int_sub r l of None \<Rightarrow> None | Some w \<Rightarrow>
        (case int_sub b t of None \<Rightarrow> None | Some h \<Rightarrow>
           Some (Canvas_new l t w h))))))))"

text \<open>
  \<open>Canvas::create(const Rect& extents)\<close>: the four floats are converted to the \<open>int\<close>
  parameters of the constructor.
\<close>

definition Canvas_create_rect :: "Rect \<Rightarrow> Canvas option" where
  "Canvas_create_rect extents =
     (case float_to_int (rect_x extents) of None \<Rightarrow> None | Some x \<Rightarrow>
     (case float_to_int (rect_y extents) of None \<Rightarrow> None | Some y \<Rightarrow>
     (case float_to_int (rect_w extents) of None \<Rightarrow> None | Some width \<Rightarrow>
     (case float_to_int (rect_h extents) of None \<Rightarrow> None | Some height \<Rightarrow>
        Some (Canvas_new x y width height)))))"

text \<open>\<open>const Rect Rect::Infinite(-FLT_MAX / 2.f, -FLT_MAX / 2.f, FLT_MAX, FLT_MAX)\<close>.\<close>

definition Rect_Infinite :: Rect where
  "Rect_Infinite =
     \<lparr>rect_x = Finite (- FLT_MAX / 2), rect_y = Finite (- FLT_MAX / 2),
      rect_w = Finite FLT_MAX, rect_h = Finite FLT_MAX\<rparr>"

subsection \<open>The luminance mask\<close>

text \<open>
  The body of the inner loop: the new value of one pixel. All of \<open>r\<close>, \<open>g\<close>, \<open>b\<close>, \<open>l\<close> are
  \<open>uint32_t\<close>.
\<close>

definition luminance_pixel :: "32 word \<Rightarrow> 32 word" where
  "luminance_pixel pixel =
     (let r = (drop_bit 16 pixel) AND 0xFF;
          g = (drop_bit 8 pixel) AND 0xFF;
          b = (drop_bit 0 pixel) AND 0xFF;
          l = (2 * r + 3 * g + b) div 6
      in push_bit 24 l)"

text \<open>
  The index of the word \<open>pixels[x]\<close> where \<open>pixels\<close> is \<open>data + stride * y\<close> read as
  \<open>uint32_t*\<close>: the byte offset is \<open>stride * y + 4 * x\<close>. \<open>None\<close> when the access is not
  aligned or lies outside the buffer of \<open>len\<close> words.
\<close>

definition pixel_index :: "int \<Rightarrow> int \<Rightarrow> int \<Rightarrow> nat \<Rightarrow> nat option" where
  "pixel_index stride y x len =
     (if 0 \<le> stride * y + 4 * x \<and> (stride * y + 4 * x) mod 4 = 0
         \<and> (stride * y + 4 * x) div 4 < int len
      then Some (nat ((stride * y + 4 * x) div 4)) else None)"

text \<open>The inner loop \<open>for(int x = 0; x < width; x++)\<close>, from the current \<open>x\<close> on.\<close>

function cols_loop :: "int \<Rightarrow> int \<Rightarrow> int \<Rightarrow> int \<Rightarrow> 32 word list \<Rightarrow> 32 word list option" where
  "cols_loop width stride y x dat =
     (if x < width then
        (case pixel_index stride y x (length dat) of
           None \<Rightarrow> None
         | Some i \<Rightarrow> cols_loop width stride y (x + 1) (dat[i := luminance_pixel (dat ! i)]))
      else Some dat)"
  by pat_completeness auto
termination
  by (relation "measure (\<lambda>(width, stride, y, x, dat). nat (width - x))") auto

declare cols_loop.simps [simp del]

text \<open>The outer loop \<open>for(int y = 0; y < height; y++)\<close>, from the current \<open>y\<close> on.\<close>

function rows_loop :: "int \<Rightarrow> int \<Rightarrow> int \<Rightarrow> int \<Rightarrow> 32 word list \<Rightarrow> 32 word list option" where
  "rows_loop width height stride y dat =
     (if y < height then
        (case cols_loop width stride y 0 dat of
           None \<Rightarrow> None
         | Some dat' \<Rightarrow> rows_loop width height stride (y + 1) dat')
      else Some dat)"
  by pat_completeness auto
termination
  by (relation "measure (\<lambda>(width, height, stride, y, dat). nat (height - y))") auto

declare rows_loop.simps [simp del]

text \<open>\<open>Canvas::convertToLuminanceMask\<close>: the surface is changed in place.\<close>

definition Canvas_convertToLuminanceMask :: "Canvas \<Rightarrow> Canvas option" where
  "Canvas_convertToLuminanceMask canvas =
     (let width = s_width (m_surface canvas);
          height = s_height (m_surface canvas);
          stride = s_stride (m_surface canvas);
          dat = s_data (m_surface canvas)
      in case rows_loop width height stride 0 dat of
           None \<Rightarrow> None
         | Some dat' \<Rightarrow> Some (canvas\<lparr>m_surface := (m_surface canvas)\<lparr>s_data := dat'\<rparr>\<rparr>))"

text \<open>The pixel at column \<open>x\<close> of row \<open>y\<close> of a surface, and the channels of a pixel.\<close>

definition surface_pixel :: "plutovg_surface \<Rightarrow> int \<Rightarrow> int \<Rightarrow> 32 word" where
  "surface_pixel s x y = s_data s ! nat ((s_stride s * y + 4 * x) div 4)"

definition alpha_of :: "32 word \<Rightarrow> nat" where
  "alpha_of pixel = unat ((drop_bit 24 pixel) AND 0xFF)"

definition red_of :: "32 word \<Rightarrow> nat" where
  "red_of pixel = unat ((drop_bit 16 pixel) AND 0xFF)"

definition green_of :: "32 word \<Rightarrow> nat" where
  "green_of pixel = unat ((drop_bit 8 pixel) AND 0xFF)"

definition blue_of :: "32 word \<Rightarrow> nat" where
  "blue_of pixel = unat (pixel AND 0xFF)"

text \<open>
  A surface whose buffer the loops can walk: rows of \<open>width\<close> pixels fit in the stride,
  the stride is a multiple of the pixel size, the buffer holds \<open>height\<close> rows, and its
  size in bytes is an \<open>int\<close>.
\<close>

definition surface_ok :: "plutovg_surface \<Rightarrow> bool" where
  "surface_ok s =
     (0 \<le> s_width s \<and> 0 \<le> s_height s \<and> 4 * s_width s \<le> s_stride s
      \<and> s_stride s mod 4 = 0
      \<and> s_stride s * s_height s = 4 * int (length (s_data s))
      \<and> s_stride s * s_height s \<le> INT_MAX)"

text \<open>The luminance \<open>(2R + 3G + B) / 6\<close> of a pixel, in natural numbers.\<close>

definition luminance_of :: "32 word \<Rightarrow> nat" where
  "luminance_of pixel = (2 * red_of pixel + 3 * green_of pixel + blue_of pixel) div 6"

section \<open>Concrete inputs\<close>

text \<open>
  A backend with two builders that append a command in the layout that
  \<open>PathIterator::currentSegment\<close> reads (a header, then the points), a parser that
  rejects every text, and a heap with two buffers: a path that holds \<open>moveTo(0, 0)\<close> and
  an empty path.
\<close>

definition demo_backend :: plutovg_backend where
  "demo_backend =
     \<lparr>path_call = (\<lambda>call es. case call of
          Move_to x y \<Rightarrow> es @ [Header MoveTo 2, Pt \<lparr>px = x, py = y\<rparr>]
        | Line_to x y \<Rightarrow> es @ [Header LineTo 2, Pt \<lparr>px = x, py = y\<rparr>]
        | Reset \<Rightarrow> []
        | _ \<Rightarrow> es),
      path_parse = (\<lambda>text es. (False, es)),
      path_extents = (\<lambda>es. if es = [] then Rect_Empty else Rect_Invalid),
      DEG2RAD = (\<lambda>v. v)\<rparr>"

definition demo_heap :: path_heap where
  "demo_heap =
     [\<lparr>ref_count = 1, elements = [Header MoveTo 2, Pt \<lparr>px = Finite 0, py = Finite 0\<rparr>]\<rparr>,
      \<lparr>ref_count = 1, elements = []\<rparr>]"

text \<open>A grammar that knows one text.\<close>

definition demo_grammar :: "string \<Rightarrow> path_element list option" where
  "demo_grammar text =
     (if text = ''M 1 2'' then Some [Header MoveTo 2, Pt \<lparr>px = Finite 1, py = Finite 2\<rparr>]
      else None)"

text \<open>The buffer of \<open>moveTo(1, 2); cubicTo(3, 4, 5, 6, 7, 8)\<close>, and an array of three points.\<close>

definition demo_elements :: "path_element list" where
  "demo_elements =
     [Header MoveTo 2, Pt \<lparr>px = Finite 1, py = Finite 2\<rparr>,
      Header CubicTo 4, Pt \<lparr>px = Finite 3, py = Finite 4\<rparr>, Pt \<lparr>px = Finite 5, py = Finite 6\<rparr>,
      Pt \<lparr>px = Finite 7, py = Finite 8\<rparr>]"

definition origin3 :: "cfloat Point list" where
  "origin3 =
     [\<lparr>px = Finite 0, py = Finite 0\<rparr>, \<lparr>px = Finite 0, py = Finite 0\<rparr>,
      \<lparr>px = Finite 0, py = Finite 0\<rparr>]"

text \<open>
  A surface of 2 by 2 pixels whose rows are 12 bytes apart: the third word of each row
  is padding. Three pixels are opaque red, one is opaque green.
\<close>

definition demo_surface :: plutovg_surface where
  "demo_surface =
     \<lparr>s_width = 2, s_height = 2, s_stride = 12,
      s_data = [0xFFFF0000, 0xFFFF0000, 0xDEADBEEF, 0xFFFF0000, 0xFF00FF00, 0x12345678]\<rparr>"

section \<open>Properties of the rounding\<close>

lemma binade_from_eq:
  assumes "j \<le> k" and "k \<le> 276" and "\<And>i. j < i \<Longrightarrow> i \<le> k \<Longrightarrow> 2 ^ i \<le> s"
    and "s < 2 ^ (k + 1) \<or> k = 276"
  shows "binade_from j s = k"
  using assms
proof (induction "k - j" arbitrary: j)
  case 0
  then have "j = k" by simp
  then show ?case using "0.prems"(2,4) by (subst binade_from.simps) auto
next
  case (Suc n)
  then have lt: "j < k" by simp
  then have "2 ^ (j + 1) \<le> s" using Suc.prems(3) [of "j + 1"] by simp
  moreover have "binade_from (j + 1) s = k"
    using Suc.hyps(1) [of "j + 1"] Suc.hyps(2) Suc.prems lt by simp
  ultimately show ?case using lt Suc.prems(2) by (subst binade_from.simps) simp
qed

lemma binade_eq:
  assumes "k \<le> 276" and "2 ^ k \<le> s \<or> k = 0" and "s < 2 ^ (k + 1) \<or> k = 276"
  shows "binade s = k"
  unfolding binade_def
proof (rule binade_from_eq [OF _ assms(1) _ assms(3)])
  show "0 \<le> k" by simp
  fix i :: nat assume i: "0 < i" "i \<le> k"
  then have "2 ^ k \<le> s" using assms(2) by auto
  moreover have "(2::real) ^ i \<le> 2 ^ k" using i(2) by (simp add: power_increasing)
  ultimately show "2 ^ i \<le> s" by linarith
qed




lemma round32_in_binade:
  assumes "k \<le> 276" and "2 ^ k \<le> \<bar>y\<bar> * 2 ^ 149 \<or> k = 0" and "\<bar>y\<bar> * 2 ^ 149 < 2 ^ (k + 1) \<or> k = 276"
  shows "round32 y =
     (if FLT_MAX < of_int (round_even (\<bar>y\<bar> * 2 ^ 149 / 2 ^ (k - 23))) * 2 ^ (k - 23) / 2 ^ 149
      then (if y < 0 then NegInf else PosInf)
      else Finite (if y < 0
          then - (of_int (round_even (\<bar>y\<bar> * 2 ^ 149 / 2 ^ (k - 23))) * 2 ^ (k - 23) / 2 ^ 149)
          else of_int (round_even (\<bar>y\<bar> * 2 ^ 149 / 2 ^ (k - 23))) * 2 ^ (k - 23) / 2 ^ 149))"
  unfolding round32_def binade_eq [OF assms] Let_def ..

text \<open>
  Some values: the integers up to \<open>2^24\<close> are on the grid; from \<open>2^24\<close> on the grid has
  spacing 2, and \<open>2^24 + 1\<close> and \<open>2^24 + 1/2\<close> round down to \<open>2^24\<close>.
\<close>

lemma round32_0: "round32 0 = Finite 0"
  by (simp add: round32_in_binade [of 0] round_even_def FLT_MAX_def)

lemma round32_1: "round32 1 = Finite 1"
  by (simp add: round32_in_binade [of 149] round_even_def FLT_MAX_def)

lemma round32_2: "round32 2 = Finite 2"
  by (simp add: round32_in_binade [of 150] round_even_def FLT_MAX_def)

lemma round32_2p24: "round32 16777216 = Finite 16777216"
  by (simp add: round32_in_binade [of 173] round_even_def FLT_MAX_def)

lemma round32_2p24_plus_1: "round32 16777217 = Finite 16777216"
  by (simp add: round32_in_binade [of 173] round_even_def FLT_MAX_def)

lemma round32_2p24_plus_2: "round32 16777218 = Finite 16777218"
  by (simp add: round32_in_binade [of 173] round_even_def FLT_MAX_def)






section \<open>Properties of Transform\<close>

text \<open>
  Claim C3 (composition order), as amended. In exact arithmetic, that is with the
  coefficients of the transforms and the coordinates of the point read as elements of a
  commutative ring such as the reals and combined without rounding: for all transforms
  \<open>A\<close>, \<open>B\<close> and every point \<open>p\<close>, mapping \<open>p\<close> by \<open>A\<close> after \<open>multiply(B)\<close> is mapping \<open>p\<close> by
  \<open>B\<close> first and then by \<open>A\<close>, and mapping \<open>p\<close> by \<open>A\<close> after \<open>postMultiply(B)\<close> is mapping
  \<open>p\<close> by \<open>A\<close> first and then by \<open>B\<close>.
\<close>

theorem Transform_composition_order:
  fixes A B :: "'a::comm_ring_1 plutovg_matrix"
  shows "Transform_mapPoint (Transform_multiply A B) p
       = Transform_mapPoint A (Transform_mapPoint B p)
   \<and> Transform_mapPoint (Transform_postMultiply A B) p
       = Transform_mapPoint B (Transform_mapPoint A p)"
  by (simp add: Transform_mapPoint_def Transform_mapPoint_xy_def Transform_multiply_def
      Transform_postMultiply_def Transform_times_def plutovg_matrix_multiply_def
      plutovg_matrix_map_def algebra_simps)

text \<open>
  On floats the two sides are equal only up to rounding. For the translation \<open>A\<close> by
  \<open>(2^24, 0)\<close>, the translation \<open>B\<close> by \<open>(1, 0)\<close> and the point \<open>(1, 0)\<close>: the matrix of
  \<open>A.multiply(B)\<close> has \<open>e = 2^24\<close>, since \<open>2^24 + 1\<close> rounds to \<open>2^24\<close>, and maps the point
  to \<open>(2^24, 0)\<close>; \<open>B\<close> maps the point to \<open>(2, 0)\<close>, which \<open>A\<close> maps to \<open>(2^24 + 2, 0)\<close>.
\<close>

theorem Transform_composition_order_counterexample:
  "Transform_mapPoint
     (Transform_multiply
        \<lparr>m_a = Finite 1, m_b = Finite 0, m_c = Finite 0, m_d = Finite 1,
           m_e = Finite 16777216, m_f = Finite 0\<rparr>
        \<lparr>m_a = Finite 1, m_b = Finite 0, m_c = Finite 0, m_d = Finite 1,
           m_e = Finite 1, m_f = Finite 0\<rparr>)
     \<lparr>px = Finite 1, py = Finite 0\<rparr>
     = \<lparr>px = Finite 16777216, py = Finite 0\<rparr>
   \<and> Transform_mapPoint
       \<lparr>m_a = Finite 1, m_b = Finite 0, m_c = Finite 0, m_d = Finite 1,
          m_e = Finite 16777216, m_f = Finite 0\<rparr>
       (Transform_mapPoint
          \<lparr>m_a = Finite 1, m_b = Finite 0, m_c = Finite 0, m_d = Finite 1,
             m_e = Finite 1, m_f = Finite 0\<rparr>
          \<lparr>px = Finite 1, py = Finite 0\<rparr>)
     = \<lparr>px = Finite 16777218, py = Finite 0\<rparr>"
  by (simp add: Transform_mapPoint_def Transform_mapPoint_xy_def Transform_multiply_def
      Transform_times_def plutovg_matrix_multiply_def plutovg_matrix_map_def
      plus_cfloat_def times_cfloat_def round32_0 round32_1 round32_2 round32_2p24
      round32_2p24_plus_1 round32_2p24_plus_2)

text \<open>
  The two orders differ: a translation by 10 composed with a scaling by 2 sends the
  point \<open>(1, 1)\<close> to \<open>(12, 2)\<close> with \<open>multiply\<close> and to \<open>(22, 2)\<close> with \<open>postMultiply\<close>.
\<close>

lemma Transform_orders_differ:
  "Transform_mapPoint
     (Transform_multiply \<lparr>m_a = 1, m_b = 0, m_c = 0, m_d = 1, m_e = 10, m_f = 0\<rparr>
        \<lparr>m_a = 2, m_b = 0, m_c = 0, m_d = 2, m_e = 0, m_f = 0\<rparr>)
     \<lparr>px = 1, py = 1\<rparr> = \<lparr>px = 12 :: int, py = 2\<rparr>
   \<and> Transform_mapPoint
     (Transform_postMultiply \<lparr>m_a = 1, m_b = 0, m_c = 0, m_d = 1, m_e = 10, m_f = 0\<rparr>
        \<lparr>m_a = 2, m_b = 0, m_c = 0, m_d = 2, m_e = 0, m_f = 0\<rparr>)
     \<lparr>px = 1, py = 1\<rparr> = \<lparr>px = 22 :: int, py = 2\<rparr>"
  by (simp add: Transform_mapPoint_def Transform_mapPoint_xy_def Transform_multiply_def
      Transform_postMultiply_def Transform_times_def plutovg_matrix_multiply_def
      plutovg_matrix_map_def)

lemma fless_zero_not_fge: "fless v (Finite 0) \<Longrightarrow> \<not> fge v (Finite 0)"
  by (cases v) (simp_all add: fge_def)

text \<open>
  Claim C7 (invalid rect). A rect with \<open>w < 0\<close> or \<open>h < 0\<close> is not valid. For every
  transform \<open>T\<close> and every rect that is not valid, \<open>T.mapRect\<close> returns \<open>Rect::Invalid\<close>,
  whatever the matrix and whatever the backend's \<open>plutovg_matrix_map_rect\<close> computes:
  the backend is not consulted. \<open>Rect::Invalid\<close> is itself not valid, and the identity
  maps it to \<open>Rect::Invalid\<close>.
\<close>

theorem Transform_mapRect_invalid:
  "(fless (rect_w R) (Finite 0) \<or> fless (rect_h R) (Finite 0) \<longrightarrow> \<not> Rect_isValid R)
   \<and> (\<not> Rect_isValid R \<longrightarrow> Transform_mapRect backend_map_rect T R = Rect_Invalid)
   \<and> \<not> Rect_isValid Rect_Invalid
   \<and> Transform_mapRect backend_map_rect (Transform_Identity :: real plutovg_matrix) Rect_Invalid
       = Rect_Invalid"
  by (auto simp: Rect_isValid_def Transform_mapRect_def Rect_Invalid_def fge_def
      dest: fless_zero_not_fge)

text \<open>
  A rect of width \<open>-2\<close> under a scaling, with a backend that would return \<open>Rect::Empty\<close>.
\<close>

theorem Transform_mapRect_invalid_witness:
  "fless (rect_w \<lparr>rect_x = Finite 3, rect_y = Finite 4, rect_w = Finite (- 2), rect_h = Finite 5\<rparr>)
     (Finite 0)
   \<and> Transform_mapRect (\<lambda>m r. Rect_Empty)
        (\<lparr>m_a = 2, m_b = 0, m_c = 0, m_d = 2, m_e = 1, m_f = 1\<rparr> :: real plutovg_matrix)
        \<lparr>rect_x = Finite 3, rect_y = Finite 4, rect_w = Finite (- 2), rect_h = Finite 5\<rparr>
       = Rect_Invalid"
  using Transform_mapRect_invalid
    [of "\<lparr>rect_x = Finite 3, rect_y = Finite 4, rect_w = Finite (- 2), rect_h = Finite 5\<rparr>"
      "\<lambda>m r. Rect_Empty" "\<lparr>m_a = 2, m_b = 0, m_c = 0, m_d = 2, m_e = 1, m_f = 1\<rparr>"]
  by simp

section \<open>Properties of the canvas factories\<close>

text \<open>
  Claim C4 (guard of the four-float factory). For all floats \<open>x\<close>, \<open>y\<close>, \<open>width\<close>,
  \<open>height\<close> (infinities and NaN included) with \<open>width \<le> 0\<close> or \<open>height \<le> 0\<close> or
  \<open>width > 2^24\<close> or \<open>height > 2^24\<close>, \<open>Canvas::create\<close> returns a canvas of width 1 and
  height 1 with origin \<open>(0, 0)\<close>.
\<close>

theorem Canvas_create_guard:
  "fle width (Finite 0) \<or> fle height (Finite 0)
     \<or> fgt width (Finite (2 ^ 24)) \<or> fgt height (Finite (2 ^ 24))
   \<Longrightarrow> \<exists>canvas. Canvas_create x y width height = Some canvas
         \<and> Canvas_width canvas = 1 \<and> Canvas_height canvas = 1
         \<and> m_x canvas = 0 \<and> m_y canvas = 0"
  by (auto simp: Canvas_create_def Canvas_new_def Canvas_width_def Canvas_height_def
      plutovg_surface_create_def kMaxSize_def int_to_float_def)

theorem Canvas_create_guard_witness:
  "fgt (Finite (2 ^ 24 + 2)) (Finite (2 ^ 24))
   \<and> (\<exists>canvas. Canvas_create (Finite 5) NaN (Finite (2 ^ 24 + 2)) (Finite 7) = Some canvas
         \<and> Canvas_width canvas = 1 \<and> Canvas_height canvas = 1
         \<and> m_x canvas = 0 \<and> m_y canvas = 0)"
  using Canvas_create_guard [of "Finite (2 ^ 24 + 2)" "Finite 7" "Finite 5" NaN]
  by (simp add: fgt_def)

lemma trunc_real_of_int [simp]: "trunc_real (of_int k) = k"
  by (simp add: trunc_real_def)









text \<open>
  Claim C10 (the \<open>Rect\<close> overload is unchecked), as amended. For every rect whose four
  fields are finite and truncate to values of type \<open>int\<close>, \<open>Canvas::create(extents)\<close>
  returns the canvas whose origin is the truncated \<open>(x, y)\<close> and whose surface is the one
  that the backend creates for exactly the truncated width and height: there is no cap
  at \<open>2^24\<close> and no 1 by 1 fallback for extents that are not positive.
\<close>

theorem Canvas_create_rect_unchecked:
  assumes "in_int_range (trunc_real xr)" and "in_int_range (trunc_real yr)"
    and "in_int_range (trunc_real wr)" and "in_int_range (trunc_real hr)"
  shows "\<exists>canvas.
       Canvas_create_rect \<lparr>rect_x = Finite xr, rect_y = Finite yr, rect_w = Finite wr, rect_h = Finite hr\<rparr>
         = Some canvas
       \<and> m_surface canvas = plutovg_surface_create (trunc_real wr) (trunc_real hr)
       \<and> Canvas_width canvas = trunc_real wr \<and> Canvas_height canvas = trunc_real hr
       \<and> m_x canvas = trunc_real xr \<and> m_y canvas = trunc_real yr"
  using assms
  by (simp add: Canvas_create_rect_def Canvas_new_def Canvas_width_def Canvas_height_def
      plutovg_surface_create_def)

text \<open>
  A rect of binary32 values, wider than \<open>2^24\<close> and of negative height \<open>-3.75\<close>: the
  canvas is \<open>2^24 + 2\<close> wide and \<open>-3\<close> high, where the four-float factory returns a 1 by 1
  canvas.
\<close>

theorem Canvas_create_rect_unchecked_witness:
  "in_int_range (trunc_real (1 / 2)) \<and> in_int_range (trunc_real (- 1 / 2))
   \<and> in_int_range (trunc_real (2 ^ 24 + 2)) \<and> in_int_range (trunc_real (- 15 / 4))
   \<and> (\<exists>canvas.
        Canvas_create_rect \<lparr>rect_x = Finite (1 / 2), rect_y = Finite (- 1 / 2),
           rect_w = Finite (2 ^ 24 + 2), rect_h = Finite (- 15 / 4)\<rparr> = Some canvas
        \<and> Canvas_width canvas = 2 ^ 24 + 2 \<and> Canvas_height canvas = - 3
        \<and> m_x canvas = 0 \<and> m_y canvas = 0)
   \<and> Canvas_create (Finite (1 / 2)) (Finite (- 1 / 2)) (Finite (2 ^ 24 + 2)) (Finite (- 15 / 4))
       = Some (Canvas_new 0 0 1 1)"
proof -
  have t: "trunc_real (1 / 2) = 0" "trunc_real (- 1 / 2) = 0"
    "trunc_real (2 ^ 24 + 2) = 2 ^ 24 + 2" "trunc_real (- 15 / 4) = - 3"
    by (simp_all add: trunc_real_def ceiling_eq_iff floor_eq_iff)
  have r: "in_int_range (trunc_real (1 / 2))" "in_int_range (trunc_real (- 1 / 2))"
    "in_int_range (trunc_real (2 ^ 24 + 2))" "in_int_range (trunc_real (- 15 / 4))"
    unfolding t by (simp_all add: in_int_range_def INT_MIN_def INT_MAX_def)
  from Canvas_create_rect_unchecked [OF r, unfolded t]
  have c: "\<exists>canvas.
        Canvas_create_rect \<lparr>rect_x = Finite (1 / 2), rect_y = Finite (- 1 / 2),
           rect_w = Finite (2 ^ 24 + 2), rect_h = Finite (- 15 / 4)\<rparr> = Some canvas
        \<and> Canvas_width canvas = 2 ^ 24 + 2 \<and> Canvas_height canvas = - 3
        \<and> m_x canvas = 0 \<and> m_y canvas = 0"
    by auto
  have g: "Canvas_create (Finite (1 / 2)) (Finite (- 1 / 2)) (Finite (2 ^ 24 + 2))
      (Finite (- 15 / 4)) = Some (Canvas_new 0 0 1 1)"
    by (simp add: Canvas_create_def)
  from c r g show ?thesis by blast
qed

text \<open>
  The claim as stated is for every rect. For \<open>Rect::Infinite\<close>, a constant of the same
  source file, no field converts to an \<open>int\<close>: the conversion is undefined and no canvas
  is determined.
\<close>

theorem Canvas_create_rect_unchecked_counterexample:
  "Canvas_create_rect Rect_Infinite = None"
  by (simp add: Canvas_create_rect_def Rect_Infinite_def FLT_MAX_def trunc_real_def
      in_int_range_def INT_MIN_def INT_MAX_def)

section \<open>Properties of Path\<close>

subsection \<open>What \<open>ensure()\<close> and the backend calls change\<close>

lemma ensure_cases:
  assumes "Path_ensure hp this = (hp1, d)"
  shows "(ref_count (hp ! this) = 1 \<and> hp1 = hp \<and> d = this)
       \<or> (ref_count (hp ! this) \<noteq> 1
          \<and> hp1 = hp @ [\<lparr>ref_count = 1, elements = elements (hp ! this)\<rparr>] \<and> d = length hp)"
  using assms
  by (auto simp: Path_ensure_def Path_isUnique_def plutovg_path_get_reference_count_def
      plutovg_path_clone_def split: if_splits)

lemma ensure_unique:
  assumes "Path_ensure hp this = (hp1, d)" and "this < length hp"
  shows "d < length hp1 \<and> ref_count (hp1 ! d) = 1"
  using ensure_cases [OF assms(1)] assms(2) by auto

lemma apply_at:
  "d < length hp \<Longrightarrow> ref_count (plutovg_path_apply B hp d call ! d) = ref_count (hp ! d)"
  by (simp add: plutovg_path_apply_def)

lemma Path_parse_steps:
  assumes "Path_parse B hp this text = (ok, hp3, d)" and "this < length hp"
  obtains hp1 where "Path_ensure hp this = (hp1, d)"
    and "plutovg_path_parse B (plutovg_path_apply B hp1 d Reset) d text = (ok, hp3)"
proof -
  obtain hp1 d1 where e1: "Path_ensure hp this = (hp1, d1)" by (cases "Path_ensure hp this")
  let ?h = "plutovg_path_apply B hp1 d1 Reset"
  from ensure_unique [OF e1 assms(2)] have "ref_count (?h ! d1) = 1"
    by (simp add: apply_at)
  then have e2: "Path_ensure ?h d1 = (?h, d1)"
    by (simp add: Path_ensure_def Path_isUnique_def plutovg_path_get_reference_count_def)
  from assms(1) have "plutovg_path_parse B ?h d1 text = (ok, hp3)" and "d = d1"
    by (auto simp: Path_parse_def e1 e2 split: prod.splits)
  with e1 that show ?thesis by simp
qed

text \<open>
  \<open>Path::parse\<close> with any backend: the result and the final contents of the path are
  what the parser of the backend returns for the buffer as the backend's reset left it.
  \<open>Path::parse\<close> adds nothing of its own after the parser has returned.
\<close>

lemma Path_parse_delegates:
  assumes "this < length hp"
  shows "case Path_parse B hp this str of
           (ok, hp', this') \<Rightarrow>
             (ok, Path_elements hp' this')
               = path_parse B str (path_call B Reset (Path_elements hp this))"
proof -
  obtain ok hp3 d where r: "Path_parse B hp this str = (ok, hp3, d)"
    by (cases "Path_parse B hp this str")
  from r assms obtain hp1 where e: "Path_ensure hp this = (hp1, d)"
    and p: "plutovg_path_parse B (plutovg_path_apply B hp1 d Reset) d str = (ok, hp3)"
    by (rule Path_parse_steps)
  from ensure_unique [OF e assms] have d: "d < length hp1" by simp
  from ensure_cases [OF e] assms have el: "elements (hp1 ! d) = elements (hp ! this)" by auto
  have "(ok, elements (hp3 ! d)) = path_parse B str (path_call B Reset (elements (hp ! this)))"
    using p d el by (auto simp: plutovg_path_parse_def plutovg_path_apply_def split: prod.splits)
  then show ?thesis
    by (simp add: r Path_elements_def plutovg_path_get_elements_def)
qed

lemmas Path_op_defs = Path_moveTo_def Path_lineTo_def Path_quadTo_def Path_cubicTo_def
  Path_arcTo_def Path_close_def Path_addEllipse_def Path_addRoundRect_def Path_addRect_def
  Path_reset_def

lemma Path_mutate_forms:
  "(\<exists>call. Path_mutate B hp this m = ensure_then B hp this call)
   \<or> (\<exists>text. Path_mutate B hp this m = snd (Path_parse B hp this text))"
  by (cases m) (auto simp: Path_op_defs ensure_then_def)

text \<open>
  Every mutating member function leaves the heap in one of two shapes: the buffer was
  not shared and its contents were replaced in place, or it was shared and a new
  buffer with count 1 was appended while every old buffer stayed as it was.
\<close>

lemma ensure_then_detached:
  assumes "ensure_then B hp this call = (hp2, d)" and "this < length hp"
  shows "detached hp this hp2 d"
proof -
  obtain hp1 where e: "Path_ensure hp this = (hp1, d)" and h: "hp2 = plutovg_path_apply B hp1 d call"
    using assms(1) by (auto simp: ensure_then_def split: prod.splits)
  from ensure_cases [OF e] show ?thesis
    using assms(2) by (auto simp: detached_def h plutovg_path_apply_def)
qed

lemma Path_parse_detached:
  assumes "Path_parse B hp this str = (ok, hp3, d)" and "this < length hp"
  shows "detached hp this hp3 d"
proof -
  from assms obtain hp1 where e: "Path_ensure hp this = (hp1, d)"
    and p: "plutovg_path_parse B (plutovg_path_apply B hp1 d Reset) d str = (ok, hp3)"
    by (rule Path_parse_steps)
  from ensure_cases [OF e] p show ?thesis
    using assms(2)
    by (auto simp: detached_def plutovg_path_apply_def plutovg_path_parse_def split: prod.splits)
qed

lemma Path_mutate_detached:
  assumes "Path_mutate B hp this m = (hp2, d)" and "this < length hp"
  shows "detached hp this hp2 d"
proof -
  consider call where "Path_mutate B hp this m = ensure_then B hp this call"
    | str where "Path_mutate B hp this m = snd (Path_parse B hp this str)"
    using Path_mutate_forms [of B hp this m] by blast
  then show ?thesis
  proof cases
    case 1
    with assms(1) have "ensure_then B hp this call = (hp2, d)" by simp
    from ensure_then_detached [OF this assms(2)] show ?thesis .
  next
    case 2
    with assms(1) obtain ok where "Path_parse B hp this str = (ok, hp2, d)"
      by (cases "Path_parse B hp this str") simp
    from Path_parse_detached [OF this assms(2)] show ?thesis .
  qed
qed

lemma detached_unique:
  "detached hp this hp2 d \<Longrightarrow> this < length hp \<Longrightarrow> d < length hp2 \<and> ref_count (hp2 ! d) = 1"
  by (auto simp: detached_def)

lemma detached_frame:
  "detached hp this hp2 d \<Longrightarrow> p < length hp \<Longrightarrow> p \<noteq> this \<or> ref_count (hp ! this) \<noteq> 1
   \<Longrightarrow> p \<noteq> d \<and> hp2 ! p = hp ! p \<and> length hp \<le> length hp2"
  by (auto simp: detached_def nth_append)

lemma detached_counts:
  "detached hp this hp2 d \<Longrightarrow> p < length hp
   \<Longrightarrow> p < length hp2 \<and> ref_count (hp2 ! p) = ref_count (hp ! p)"
  by (cases "p = this") (auto simp: detached_def nth_append)

lemma Path_mutate_unique:
  assumes "Path_mutate B hp this m = (hp2, d)" and "this < length hp"
  shows "d < length hp2 \<and> ref_count (hp2 ! d) = 1"
  using detached_unique [OF Path_mutate_detached [OF assms] assms(2)] .

lemma Path_mutate_frame:
  assumes "Path_mutate B hp this m = (hp2, d)" and "this < length hp" and "p < length hp"
    and "p \<noteq> this \<or> ref_count (hp ! this) \<noteq> 1"
  shows "p \<noteq> d \<and> hp2 ! p = hp ! p \<and> length hp \<le> length hp2"
  using detached_frame [OF Path_mutate_detached [OF assms(1,2)] assms(3,4)] .

lemma Path_mutate_all_frame:
  assumes "Path_mutate_all B hp this ms = (hp2, d)" and "this < length hp" and "p < length hp"
    and "p \<noteq> this \<or> ref_count (hp ! this) \<noteq> 1"
  shows "hp2 ! p = hp ! p"
  using assms
proof (induction ms arbitrary: hp this)
  case Nil
  then show ?case by simp
next
  case (Cons m ms)
  obtain hp1 d1 where s: "Path_mutate B hp this m = (hp1, d1)"
    by (cases "Path_mutate B hp this m")
  from Path_mutate_frame [OF s Cons.prems(2,3,4)]
  have f: "p \<noteq> d1" "hp1 ! p = hp ! p" "length hp \<le> length hp1" by auto
  from Path_mutate_unique [OF s Cons.prems(2)] have u: "d1 < length hp1" by simp
  from Cons.prems(1) s have r: "Path_mutate_all B hp1 d1 ms = (hp2, d)" by simp
  have "hp2 ! p = hp1 ! p"
    using Cons.IH [OF r u] f(1,3) Cons.prems(3) by simp
  with f(2) show ?case by simp
qed

lemma copy_shared:
  assumes "Path_copy hp P = (hp1, Q)" and "paths_alive hp [P]"
  shows "Q = P \<and> length hp1 = length hp \<and> ref_count (hp1 ! P) \<noteq> 1
       \<and> elements (hp1 ! P) = elements (hp ! P)"
  using assms by (auto simp: Path_copy_def plutovg_path_reference_def paths_alive_def)

lemma assign_shared:
  assumes "Path_assign hp Q0 P = (hp1, Q)" and "paths_alive hp [P, Q0]"
  shows "Q = P \<and> length hp1 = length hp \<and> ref_count (hp1 ! P) \<noteq> 1
       \<and> elements (hp1 ! P) = elements (hp ! P)"
  using assms
  by (cases "Q0 = P")
     (auto simp: Path_assign_def Path_copy_def Path_destructor_def plutovg_path_reference_def
        plutovg_path_destroy_def paths_alive_def nth_list_update)

lemma shared_isolated:
  assumes "length hp1 = length hp" and "ref_count (hp1 ! P) \<noteq> 1"
    and "elements (hp1 ! P) = elements (hp ! P)" and "P < length hp"
  shows "Path_elements (fst (Path_mutate_all B hp1 P ms)) P = Path_elements hp P
       \<and> Path_boundingRect B (fst (Path_mutate_all B hp1 P ms)) P = Path_boundingRect B hp P"
proof -
  obtain hp2 d where mu: "Path_mutate_all B hp1 P ms = (hp2, d)"
    by (cases "Path_mutate_all B hp1 P ms")
  have "hp2 ! P = hp1 ! P"
    using Path_mutate_all_frame [OF mu, of P] assms(1,2,4) by simp
  then show ?thesis
    by (simp add: mu Path_elements_def Path_boundingRect_def plutovg_path_get_elements_def
        plutovg_path_extents_def assms(3))
qed

subsection \<open>The reference counts stay above the number of owners\<close>

text \<open>
  Copying, mutating and destroying \<open>Path\<close> objects keep every buffer's count at least
  the number of live objects that point to it: the condition under which the isolation
  below is stated holds in every state that these operations reach. (A clone made by
  \<open>ensure()\<close> leaves the count of the old buffer as it was, so the count may exceed the
  number of owners.)
\<close>

lemma paths_alive_iff:
  "paths_alive hp ps \<longleftrightarrow>
     (\<forall>p \<in> set ps. p < length hp \<and> int (count_list ps p) \<le> ref_count (hp ! p))"
  by (simp add: paths_alive_def list_all_iff)

lemma paths_alive_copy:
  assumes "paths_alive hp ps" and "P \<in> set ps" and "Path_copy hp P = (hp1, Q)"
  shows "paths_alive hp1 (Q # ps)"
  using assms
  by (auto simp: paths_alive_iff Path_copy_def plutovg_path_reference_def nth_list_update)

lemma paths_alive_mutate:
  assumes "paths_alive hp (this # ps)" and "Path_mutate B hp this m = (hp2, d)"
  shows "paths_alive hp2 (d # ps)"
proof -
  have t: "this < length hp" using assms(1) by (simp add: paths_alive_iff)
  note dt = Path_mutate_detached [OF assms(2) t]
  have old: "p < length hp2 \<and> ref_count (hp2 ! p) = ref_count (hp ! p)
      \<and> int (count_list (this # ps) p) \<le> ref_count (hp ! p)"
    if "p \<in> set (this # ps)" for p
    using that assms(1) detached_counts [OF dt, of p] by (auto simp: paths_alive_iff)
  show ?thesis
  proof (cases "d = this")
    case True
    then show ?thesis using old by (auto simp: paths_alive_iff)
  next
    case False
    then have d: "d = length hp" using dt by (auto simp: detached_def)
    have "d \<notin> set ps" using assms(1) d by (auto simp: paths_alive_iff)
    then have c0: "count_list ps d = 0" by (simp add: count_list_0_iff)
    have "paths_alive hp2 (d # ps) \<longleftrightarrow>
        (d < length hp2 \<and> int (count_list (d # ps) d) \<le> ref_count (hp2 ! d))
        \<and> (\<forall>p \<in> set ps. p < length hp2 \<and> int (count_list (d # ps) p) \<le> ref_count (hp2 ! p))"
      by (simp add: paths_alive_iff)
    moreover have "d < length hp2 \<and> int (count_list (d # ps) d) \<le> ref_count (hp2 ! d)"
      using detached_unique [OF dt t] c0 by simp
    moreover have "p < length hp2 \<and> int (count_list (d # ps) p) \<le> ref_count (hp2 ! p)"
      if "p \<in> set ps" for p
    proof -
      have "p \<noteq> d" using that \<open>d \<notin> set ps\<close> by auto
      then show ?thesis using old [of p] that by (auto split: if_splits)
    qed
    ultimately show ?thesis by blast
  qed
qed

lemma paths_alive_destructor:
  assumes "paths_alive hp (this # ps)"
  shows "paths_alive (Path_destructor hp this) ps"
  using assms
  by (auto simp: paths_alive_iff Path_destructor_def plutovg_path_destroy_def nth_list_update)

subsection \<open>The claims\<close>

text \<open>
  Claim C9 (uniqueness after mutation). For every heap, every allocated path buffer and
  every mutating member function (\<open>moveTo\<close>, \<open>lineTo\<close>, \<open>quadTo\<close>, \<open>cubicTo\<close>, \<open>arcTo\<close>,
  \<open>close\<close>, \<open>addEllipse\<close>, \<open>addRoundRect\<close>, \<open>addRect\<close>, \<open>reset\<close>, \<open>parse\<close>) with any
  arguments and any backend: when the call returns, \<open>isUnique()\<close> is true of the path,
  whatever the reference count of its buffer was before the call.
\<close>

theorem Path_mutation_makes_unique:
  "this < length hp \<Longrightarrow>
   Path_isUnique (fst (Path_mutate B hp this m)) (snd (Path_mutate B hp this m))"
  using Path_mutate_unique
    [of B hp this m "fst (Path_mutate B hp this m)" "snd (Path_mutate B hp this m)"]
  by (simp add: Path_isUnique_def plutovg_path_get_reference_count_def)

text \<open>A path that shares its buffer with a copy is not unique before \<open>moveTo\<close> and unique after.\<close>

theorem Path_mutation_makes_unique_witness:
  "(0 :: nat) < length (fst (Path_copy demo_heap 0))
   \<and> \<not> Path_isUnique (fst (Path_copy demo_heap 0)) 0
   \<and> Path_isUnique
        (fst (Path_mutate demo_backend (fst (Path_copy demo_heap 0)) 0 (Call_moveTo (Finite 3) (Finite 4))))
        (snd (Path_mutate demo_backend (fst (Path_copy demo_heap 0)) 0 (Call_moveTo (Finite 3) (Finite 4))))"
  using Path_mutation_makes_unique
    [of 0 "fst (Path_copy demo_heap 0)" demo_backend "Call_moveTo (Finite 3) (Finite 4)"]
  by (simp add: demo_heap_def Path_copy_def plutovg_path_reference_def Path_isUnique_def
      plutovg_path_get_reference_count_def)

text \<open>
  Claim C1 (copy-on-write isolation). Let \<open>P\<close> be a live path and \<open>Q\<close> a copy of \<open>P\<close>, made
  by the copy constructor or by assigning \<open>P\<close> to another live path object \<open>Q0\<close>. After any
  sequence of mutating member functions applied to \<open>Q\<close>, with any arguments and any
  backend, the command sequence of \<open>P\<close> and \<open>P.boundingRect()\<close> are what they were
  before the copy. One call is the sequence of length one.
\<close>

theorem Path_copy_on_write_isolation:
  "(paths_alive hp [P] \<longrightarrow>
      (case Path_copy hp P of (hp1, Q) \<Rightarrow>
         (case Path_mutate_all B hp1 Q ms of (hp2, Q') \<Rightarrow>
            Path_elements hp2 P = Path_elements hp P
            \<and> Path_boundingRect B hp2 P = Path_boundingRect B hp P)))
   \<and> (paths_alive hp [P, Q0] \<longrightarrow>
      (case Path_assign hp Q0 P of (hp1, Q) \<Rightarrow>
         (case Path_mutate_all B hp1 Q ms of (hp2, Q') \<Rightarrow>
            Path_elements hp2 P = Path_elements hp P
            \<and> Path_boundingRect B hp2 P = Path_boundingRect B hp P)))"
proof (intro conjI impI)
  assume al: "paths_alive hp [P]"
  then have a: "P < length hp" by (simp add: paths_alive_def)
  obtain hp1 Q where c: "Path_copy hp P = (hp1, Q)" by (cases "Path_copy hp P")
  from copy_shared [OF c al] shared_isolated [of hp1 hp P B ms] a
  show "case Path_copy hp P of (hp1, Q) \<Rightarrow>
       (case Path_mutate_all B hp1 Q ms of (hp2, Q') \<Rightarrow>
          Path_elements hp2 P = Path_elements hp P
          \<and> Path_boundingRect B hp2 P = Path_boundingRect B hp P)"
    by (simp add: c split_beta)
next
  assume al: "paths_alive hp [P, Q0]"
  then have a: "P < length hp" by (simp add: paths_alive_def)
  obtain hp1 Q where c: "Path_assign hp Q0 P = (hp1, Q)" by (cases "Path_assign hp Q0 P")
  from assign_shared [OF c al] shared_isolated [of hp1 hp P B ms] a
  show "case Path_assign hp Q0 P of (hp1, Q) \<Rightarrow>
       (case Path_mutate_all B hp1 Q ms of (hp2, Q') \<Rightarrow>
          Path_elements hp2 P = Path_elements hp P
          \<and> Path_boundingRect B hp2 P = Path_boundingRect B hp P)"
    by (simp add: c split_beta)
qed

text \<open>
  The path that holds \<open>moveTo(0, 0)\<close> is copied, by construction and by assignment to
  the empty path; the copy receives \<open>lineTo(1, 1)\<close> and \<open>reset()\<close>.
\<close>

theorem Path_copy_on_write_isolation_witness:
  "paths_alive demo_heap [0] \<and> paths_alive demo_heap [0, 1]
   \<and> Path_elements
        (fst (Path_mutate_all demo_backend (fst (Path_copy demo_heap 0)) (snd (Path_copy demo_heap 0))
           [Call_lineTo (Finite 1) (Finite 1), Call_reset])) 0
       = [Header MoveTo 2, Pt \<lparr>px = Finite 0, py = Finite 0\<rparr>]
   \<and> Path_elements
        (fst (Path_mutate_all demo_backend (fst (Path_assign demo_heap 1 0)) (snd (Path_assign demo_heap 1 0))
           [Call_lineTo (Finite 1) (Finite 1), Call_reset])) 0
       = [Header MoveTo 2, Pt \<lparr>px = Finite 0, py = Finite 0\<rparr>]"
proof -
  have a1: "paths_alive demo_heap [0]" and a2: "paths_alive demo_heap [0, 1]"
    by (simp_all add: paths_alive_def demo_heap_def)
  have e: "Path_elements demo_heap 0 = [Header MoveTo 2, Pt \<lparr>px = Finite 0, py = Finite 0\<rparr>]"
    by (simp add: Path_elements_def plutovg_path_get_elements_def demo_heap_def)
  from Path_copy_on_write_isolation
    [of demo_heap 0 demo_backend "[Call_lineTo (Finite 1) (Finite 1), Call_reset]" 1] a1 a2 e
  show ?thesis by (simp add: split_beta)
qed

text \<open>
  The copy itself does change: after the two calls it is empty, in a buffer of its own.
\<close>

lemma Path_copy_is_mutated:
  "Path_mutate_all demo_backend (fst (Path_copy demo_heap 0)) (snd (Path_copy demo_heap 0))
     [Call_lineTo (Finite 1) (Finite 1), Call_reset]
   = ([\<lparr>ref_count = 2, elements = [Header MoveTo 2, Pt \<lparr>px = Finite 0, py = Finite 0\<rparr>]\<rparr>,
       \<lparr>ref_count = 1, elements = []\<rparr>,
       \<lparr>ref_count = 1, elements = []\<rparr>], 2)"
  by (simp add: demo_heap_def demo_backend_def Path_copy_def plutovg_path_reference_def
      Path_lineTo_def Path_reset_def Path_ensure_def Path_isUnique_def
      plutovg_path_get_reference_count_def plutovg_path_clone_def plutovg_path_apply_def)

lemma spec_reset: "path_call (spec_backend grammar B) Reset es = []"
  by (simp add: spec_backend_def spec_path_call_def)

text \<open>
  Claim C2 (a failed parse leaves the path empty). For every text and every allocated
  path, with the reset and the parser of the backend as the spec describes them:
  \<open>Path::parse\<close> returns false exactly when the text is malformed, and then the path is
  empty, whatever it held before; when it returns true the path holds exactly the
  commands of the text.
\<close>

theorem Path_parse_failure_leaves_empty:
  "this < length hp \<Longrightarrow>
   (case Path_parse (spec_backend grammar B) hp this str of
      (ok, hp', this') \<Rightarrow>
        (ok \<longleftrightarrow> grammar str \<noteq> None)
        \<and> (\<not> ok \<longrightarrow> Path_elements hp' this' = [])
        \<and> (ok \<longrightarrow> Some (Path_elements hp' this') = grammar str))"
proof -
  assume a: "this < length hp"
  have "path_parse (spec_backend grammar B) str
          (path_call (spec_backend grammar B) Reset (Path_elements hp this))
        = (case grammar str of None \<Rightarrow> (False, []) | Some cmds \<Rightarrow> (True, cmds))"
    by (simp add: spec_reset) (simp add: spec_backend_def spec_path_parse_def split: option.splits)
  with Path_parse_delegates [OF a, of "spec_backend grammar B" str]
  show ?thesis by (auto split: option.splits prod.splits)
qed

text \<open>
  The path that holds \<open>moveTo(0, 0)\<close> parses a malformed text: the result is false and
  the path is empty.
\<close>

theorem Path_parse_failure_leaves_empty_witness:
  "(0 :: nat) < length demo_heap
   \<and> demo_grammar ''M 1 2 L'' = None
   \<and> Path_parse (spec_backend demo_grammar demo_backend) demo_heap 0 ''M 1 2 L''
       = (False, [\<lparr>ref_count = 1, elements = []\<rparr>, \<lparr>ref_count = 1, elements = []\<rparr>], 0)
   \<and> Path_elements [\<lparr>ref_count = 1, elements = []\<rparr>, \<lparr>ref_count = 1, elements = []\<rparr>] 0 = []"
proof -
  have l: "(0 :: nat) < length demo_heap" by (simp add: demo_heap_def)
  have g: "demo_grammar ''M 1 2 L'' = None" by (simp add: demo_grammar_def)
  have r: "Path_parse (spec_backend demo_grammar demo_backend) demo_heap 0 ''M 1 2 L''
       = (False, [\<lparr>ref_count = 1, elements = []\<rparr>, \<lparr>ref_count = 1, elements = []\<rparr>], 0)"
    by (simp add: Path_parse_def Path_ensure_def Path_isUnique_def
        plutovg_path_get_reference_count_def plutovg_path_apply_def plutovg_path_parse_def
        spec_backend_def spec_path_call_def spec_path_parse_def demo_heap_def demo_grammar_def)
  from Path_parse_failure_leaves_empty
    [OF l, where grammar = demo_grammar and B = demo_backend and str = "''M 1 2 L''"] l g r
  show ?thesis by simp
qed

section \<open>Properties of PathIterator\<close>

subsection \<open>The cursor on a command of the buffer\<close>

lemma encode_path_append: "encode_path (xs @ ys) = encode_path xs @ encode_path ys"
  by (simp add: encode_path_def)

lemma encode_path_Cons: "encode_path (seg # segs) = encode_segment seg @ encode_path segs"
  by (simp add: encode_path_def)

lemma element_at_append:
  "0 \<le> k \<Longrightarrow> element_at (xs @ ys) (int (length xs) + k) = element_at ys k"
  by (auto simp: element_at_def nth_append nat_add_distrib)

lemma header_at_append:
  "0 \<le> k \<Longrightarrow> header_at (xs @ ys) (int (length xs) + k) = header_at ys k"
  by (simp add: header_at_def element_at_append)

lemma point_at_append:
  "0 \<le> k \<Longrightarrow> point_at (xs @ ys) (int (length xs) + k) = point_at ys k"
  by (simp add: point_at_def element_at_append)

lemma segment_ok_cases:
  assumes "segment_ok (command, ps)"
  obtains p0 where "command \<noteq> CubicTo" and "ps = [p0]"
    | p0 p1 p2 where "command = CubicTo" and "ps = [p0, p1, p2]"
proof (cases command)
  case CubicTo
  with assms have "length ps = 3" by (simp add: segment_ok_def)
  then obtain p0 p1 p2 where "ps = [p0, p1, p2]"
    by (auto simp: length_Suc_conv numeral_3_eq_3)
  with CubicTo that show ?thesis by blast
qed (use assms that in \<open>auto simp: segment_ok_def length_Suc_conv\<close>)

lemma at_segment:
  fixes pre post :: "path_segment list"
  assumes "segment_ok (command, ps)" and "length points = 3"
  defines "it \<equiv> iterator_at pre ((command, ps) # post)"
  shows "PathIterator_currentSegment it points
           = Some (command, ps @ drop (length ps) points)"
    and "PathIterator_next it = Some (it\<lparr>m_index := m_index it + (if command = CubicTo then 4 else 2)\<rparr>)"
    and "m_index it + (if command = CubicTo then 4 else 2)
           = int (length (encode_path (pre @ [(command, ps)])))"
    and "it\<lparr>m_index := m_index it + (if command = CubicTo then 4 else 2)\<rparr>
           = iterator_at (pre @ [(command, ps)]) post"
proof -
  obtain q0 q1 q2 where pts: "points = [q0, q1, q2]"
    using assms(2) by (auto simp: length_Suc_conv numeral_3_eq_3)
  have es: "m_elements it = encode_path pre @ (encode_segment (command, ps) @ encode_path post)"
    by (simp add: it_def iterator_at_def encode_path_append encode_path_Cons)
  have ixk: "m_index it + k = int (length (encode_path pre)) + k" for k
    by (simp add: it_def iterator_at_def)
  have at: "element_at (m_elements it) (m_index it + k)
      = element_at (encode_segment (command, ps) @ encode_path post) k" if "0 \<le> k" for k
    unfolding es ixk using that by (rule element_at_append)
  have at0: "element_at (m_elements it) (m_index it)
      = element_at (encode_segment (command, ps) @ encode_path post) 0"
    using at [of 0] by simp
  from assms(1) show "PathIterator_currentSegment it points
           = Some (command, ps @ drop (length ps) points)"
  proof (cases rule: segment_ok_cases)
    case (1 p0)
    have "header_at (m_elements it) (m_index it) = Some (command, 2)"
      and "point_at (m_elements it) (m_index it + 1) = Some p0"
      by (simp_all add: header_at_def point_at_def at at0)
        (simp_all add: element_at_def encode_segment_def 1)
    then show ?thesis
      using 1 by (cases command) (simp_all add: PathIterator_currentSegment_def pts)
  next
    case (2 p0 p1 p2)
    have "header_at (m_elements it) (m_index it) = Some (command, 4)"
      and "point_at (m_elements it) (m_index it + 1) = Some p0"
      and "point_at (m_elements it) (m_index it + 2) = Some p1"
      and "point_at (m_elements it) (m_index it + 3) = Some p2"
      by (simp_all add: header_at_def point_at_def at at0)
        (simp_all add: element_at_def encode_segment_def 2)
    then show ?thesis
      using 2 by (simp add: PathIterator_currentSegment_def pts numeral_2_eq_2)
  qed
  have h: "header_at (m_elements it) (m_index it) = Some (command, 1 + int (length ps))"
    by (simp add: header_at_def at0) (simp add: element_at_def encode_segment_def)
  have len: "1 + int (length ps) = (if command = CubicTo then 4 else 2)"
    using assms(1) by (cases command) (simp_all add: segment_ok_def)
  show "PathIterator_next it = Some (it\<lparr>m_index := m_index it + (if command = CubicTo then 4 else 2)\<rparr>)"
    by (simp add: PathIterator_next_def h len)
  show e: "m_index it + (if command = CubicTo then 4 else 2)
           = int (length (encode_path (pre @ [(command, ps)])))"
    using len by (simp add: it_def iterator_at_def encode_path_append encode_path_Cons
        encode_path_def encode_segment_def)
  show "it\<lparr>m_index := m_index it + (if command = CubicTo then 4 else 2)\<rparr>
           = iterator_at (pre @ [(command, ps)]) post"
    unfolding e by (simp add: it_def iterator_at_def)
qed


subsection \<open>Iterating over a whole path\<close>

lemma iterator_at_done: "PathIterator_isDone (iterator_at pre [])"
  by (simp add: PathIterator_isDone_def iterator_at_def)

lemma iterator_at_not_done: "\<not> PathIterator_isDone (iterator_at pre (seg # post))"
  by (simp add: PathIterator_isDone_def iterator_at_def encode_path_append encode_path_Cons
      encode_segment_def)

text \<open>
  The loop of a caller over the buffer of a path comes to its end after one round for each
  command, and what it has read is the sequence of the commands with their points.
\<close>

lemma traverse_path:
  assumes "list_all segment_ok rest" and "length points = 3"
  shows "traverse (length rest) (iterator_at pre rest) points = Some rest"
  using assms
proof (induction rest arbitrary: pre points)
  case Nil
  show ?case by (subst traverse.simps) (simp add: iterator_at_done)
next
  case (Cons seg post)
  obtain command ps where seg: "seg = (command, ps)" by (cases seg)
  have ok: "segment_ok (command, ps)" and oks: "list_all segment_ok post"
    using Cons.prems(1) by (simp_all add: seg)
  have n: "length ps = nat (points_read command)" and le: "length ps \<le> 3"
    using ok by (cases command; simp add: segment_ok_def)+
  let ?points' = "ps @ drop (length ps) points"
  have l3: "length ?points' = 3" using le Cons.prems(2) by simp
  have tk: "take (nat (points_read command)) ?points' = ps" using n by simp
  note s = at_segment [OF ok Cons.prems(2), of pre post]
  have "traverse (length post) (iterator_at (pre @ [(command, ps)]) post) ?points' = Some post"
    using Cons.IH [OF oks l3] .
  then show ?case
    using s(1) s(2) s(4) tk
    by (simp add: seg) (subst traverse.simps, simp add: iterator_at_not_done)
qed

subsection \<open>The claim\<close>

text \<open>
  Claim C8 (advance of the iterator), as amended. For every path and every command of it,
  with the cursor on that command \<open>currentSegment\<close> yields the command with its points, and
  \<open>next()\<close> puts the cursor on the first slot after the command, which is the next command
  or the end of the buffer. The advance is the header slot and the point slots of the
  command: exactly 2 slots for \<open>MoveTo\<close>, \<open>LineTo\<close> and \<open>Close\<close>, and exactly 4 slots for
  \<open>CubicTo\<close>.
\<close>

theorem PathIterator_next_advance:
  assumes "list_all segment_ok (pre @ (command, ps) # post)" and "length points = 3"
  shows "PathIterator_currentSegment (iterator_at pre ((command, ps) # post)) points
           = Some (command, ps @ drop (length ps) points)
     \<and> PathIterator_next (iterator_at pre ((command, ps) # post))
           = Some (iterator_at (pre @ [(command, ps)]) post)
     \<and> m_index (iterator_at (pre @ [(command, ps)]) post)
           - m_index (iterator_at pre ((command, ps) # post))
         = (if command = CubicTo then 4 else 2)"
proof -
  have ok: "segment_ok (command, ps)" using assms(1) by simp
  note s = at_segment [OF ok assms(2), of pre post]
  have "m_index (iterator_at (pre @ [(command, ps)]) post)
      = m_index (iterator_at pre ((command, ps) # post)) + (if command = CubicTo then 4 else 2)"
    using s(3) by (simp add: iterator_at_def)
  then show ?thesis using s(1) s(2) s(4) by simp
qed

text \<open>
  The path \<open>moveTo(1, 2); cubicTo(3, 4, 5, 6, 7, 8)\<close> with the cursor on its second command.
\<close>

theorem PathIterator_next_advance_witness:
  "list_all segment_ok
     ([(MoveTo, [\<lparr>px = Finite 1, py = Finite 2\<rparr>])]
      @ (CubicTo, [\<lparr>px = Finite 3, py = Finite 4\<rparr>, \<lparr>px = Finite 5, py = Finite 6\<rparr>,
           \<lparr>px = Finite 7, py = Finite 8\<rparr>]) # [])
   \<and> length origin3 = 3
   \<and> iterator_at [(MoveTo, [\<lparr>px = Finite 1, py = Finite 2\<rparr>])]
        [(CubicTo, [\<lparr>px = Finite 3, py = Finite 4\<rparr>, \<lparr>px = Finite 5, py = Finite 6\<rparr>,
           \<lparr>px = Finite 7, py = Finite 8\<rparr>])]
       = \<lparr>m_elements = demo_elements, m_size = 6, m_index = 2\<rparr>
   \<and> PathIterator_next \<lparr>m_elements = demo_elements, m_size = 6, m_index = 2\<rparr>
       = Some \<lparr>m_elements = demo_elements, m_size = 6, m_index = 6\<rparr>
   \<and> PathIterator_currentSegment \<lparr>m_elements = demo_elements, m_size = 6, m_index = 2\<rparr> origin3
       = Some (CubicTo, [\<lparr>px = Finite 3, py = Finite 4\<rparr>, \<lparr>px = Finite 5, py = Finite 6\<rparr>,
           \<lparr>px = Finite 7, py = Finite 8\<rparr>])"
proof -
  let ?m = "(MoveTo, [\<lparr>px = Finite 1, py = Finite 2\<rparr>])"
  let ?ps = "[\<lparr>px = Finite 3, py = Finite 4\<rparr>, \<lparr>px = Finite 5, py = Finite 6\<rparr>,
           \<lparr>px = Finite 7, py = Finite 8 :: cfloat\<rparr>]"
  have a: "list_all segment_ok ([?m] @ (CubicTo, ?ps) # [])"
    by (simp add: segment_ok_def)
  have b: "length origin3 = 3" by (simp add: origin3_def)
  have i: "iterator_at [?m] [(CubicTo, ?ps)] = \<lparr>m_elements = demo_elements, m_size = 6, m_index = 2\<rparr>"
    and j: "iterator_at [?m, (CubicTo, ?ps)] [] = \<lparr>m_elements = demo_elements, m_size = 6, m_index = 6\<rparr>"
    by (simp_all add: iterator_at_def encode_path_def encode_segment_def demo_elements_def)
  from PathIterator_next_advance [OF a b] a b i show ?thesis
    by (simp add: i j origin3_def)
qed

text \<open>
  The claim as stated gives 1 slot for \<open>MoveTo\<close> and 3 slots for \<open>CubicTo\<close>. In the
  buffer above \<open>next()\<close> advances by 2 slots from the \<open>MoveTo\<close> and by 4 slots from the
  \<open>CubicTo\<close>. A buffer whose \<open>MoveTo\<close> header had length 1 could not be iterated: the
  cursor would stop on the point that \<open>currentSegment\<close> has just read, which is no header.
\<close>

theorem PathIterator_next_advance_counterexample:
  "PathIterator_currentSegment \<lparr>m_elements = demo_elements, m_size = 6, m_index = 0\<rparr> origin3
       = Some (MoveTo, [\<lparr>px = Finite 1, py = Finite 2\<rparr>, \<lparr>px = Finite 0, py = Finite 0\<rparr>, \<lparr>px = Finite 0, py = Finite 0\<rparr>])
   \<and> PathIterator_next \<lparr>m_elements = demo_elements, m_size = 6, m_index = 0\<rparr>
       = Some \<lparr>m_elements = demo_elements, m_size = 6, m_index = 2\<rparr>
   \<and> (2::int) \<noteq> 0 + 1
   \<and> PathIterator_next \<lparr>m_elements = demo_elements, m_size = 6, m_index = 2\<rparr>
       = Some \<lparr>m_elements = demo_elements, m_size = 6, m_index = 6\<rparr>
   \<and> (6::int) \<noteq> 2 + 3
   \<and> PathIterator_next \<lparr>m_elements = [Header MoveTo 1, Pt \<lparr>px = Finite 1, py = Finite 2\<rparr>], m_size = 2, m_index = 0\<rparr>
       = Some \<lparr>m_elements = [Header MoveTo 1, Pt \<lparr>px = Finite 1, py = Finite 2\<rparr>], m_size = 2, m_index = 1\<rparr>
   \<and> \<not> PathIterator_isDone \<lparr>m_elements = [Header MoveTo 1, Pt \<lparr>px = Finite 1, py = Finite 2\<rparr>], m_size = 2, m_index = 1\<rparr>
   \<and> PathIterator_currentSegment \<lparr>m_elements = [Header MoveTo 1, Pt \<lparr>px = Finite 1, py = Finite 2\<rparr>], m_size = 2, m_index = 1\<rparr> origin3 = None"
  by (simp add: PathIterator_currentSegment_def PathIterator_next_def PathIterator_isDone_def
      header_at_def point_at_def element_at_def demo_elements_def origin3_def numeral_2_eq_2)


section \<open>Properties of the luminance mask\<close>

subsection \<open>One pixel\<close>

lemma byte_mask: "(0xFF :: 32 word) = mask 8"
  by (simp add: mask_eq_exp_minus_1)

lemma unat_byte_le: "unat ((v :: 32 word) AND 0xFF) \<le> 255"
proof -
  have "unat (v AND 0xFF) \<le> unat (0xFF :: 32 word)"
    by (rule word_and_le1 [THEN word_le_nat_alt [THEN iffD1]])
  then show ?thesis by simp
qed

lemma luminance_of_le: "luminance_of pixel \<le> 255"
  using unat_byte_le [of "drop_bit 16 pixel"] unat_byte_le [of "drop_bit 8 pixel"]
    unat_byte_le [of pixel]
  by (simp add: luminance_of_def red_of_def green_of_def blue_of_def)

lemma luminance_pixel_eq: "luminance_pixel pixel = push_bit 24 (of_nat (luminance_of pixel))"
proof -
  let ?r = "(drop_bit 16 pixel) AND 0xFF" and ?g = "(drop_bit 8 pixel) AND 0xFF"
    and ?b = "pixel AND 0xFF"
  have s: "unat (2 * ?r + 3 * ?g + ?b) = 2 * unat ?r + 3 * unat ?g + unat ?b"
    using unat_byte_le [of "drop_bit 16 pixel"] unat_byte_le [of "drop_bit 8 pixel"]
      unat_byte_le [of pixel]
    by (simp add: unat_word_ariths)
  have "unat ((2 * ?r + 3 * ?g + ?b) div 6) = luminance_of pixel"
    by (simp add: unat_div s luminance_of_def red_of_def green_of_def blue_of_def)
  then have "(2 * ?r + 3 * ?g + ?b) div 6 = of_nat (luminance_of pixel)"
    by (metis of_nat_unat ucast_id)
  then show ?thesis by (simp add: luminance_pixel_def Let_def)
qed

lemma channels_of_push:
  fixes l :: nat
  assumes "l \<le> 255"
  shows "alpha_of (push_bit 24 (of_nat l)) = l"
    and "red_of (push_bit 24 (of_nat l)) = 0"
    and "green_of (push_bit 24 (of_nat l)) = 0"
    and "blue_of (push_bit 24 (of_nat l)) = 0"
proof -
  let ?w = "of_nat l :: 32 word"
  have a: "(drop_bit 24 (push_bit 24 ?w)) AND mask 8 = take_bit 8 ?w"
    by (rule bit_word_eqI) (auto simp: bit_simps)
  have "unat (take_bit 8 ?w) = l"
    using assms by (simp add: unsigned_take_bit_eq unat_of_nat take_bit_nat_eq_self)
  then show "alpha_of (push_bit 24 (of_nat l)) = l"
    by (simp add: alpha_of_def byte_mask a)
  have "(drop_bit 16 (push_bit 24 ?w)) AND mask 8 = 0"
    by (rule bit_word_eqI) (auto simp: bit_simps)
  then show "red_of (push_bit 24 (of_nat l)) = 0"
    by (simp add: red_of_def byte_mask)
  have "(drop_bit 8 (push_bit 24 ?w)) AND mask 8 = 0"
    by (rule bit_word_eqI) (auto simp: bit_simps)
  then show "green_of (push_bit 24 (of_nat l)) = 0"
    by (simp add: green_of_def byte_mask)
  have "(push_bit 24 ?w) AND mask 8 = 0"
    by (rule bit_word_eqI) (auto simp: bit_simps)
  then show "blue_of (push_bit 24 (of_nat l)) = 0"
    by (simp add: blue_of_def byte_mask)
qed

lemma luminance_pixel_channels:
  "alpha_of (luminance_pixel pixel) = (2 * red_of pixel + 3 * green_of pixel + blue_of pixel) div 6
   \<and> red_of (luminance_pixel pixel) = 0 \<and> green_of (luminance_pixel pixel) = 0
   \<and> blue_of (luminance_pixel pixel) = 0"
  using channels_of_push [OF luminance_of_le, of pixel]
  by (simp add: luminance_pixel_eq) (simp add: luminance_of_def)

lemma red_pixel: "luminance_pixel 0xFFFF0000 = 0x55000000"
  by (simp add: luminance_pixel_def)

lemma red_channels: "alpha_of 0xFFFF0000 = 255 \<and> red_of 0xFFFF0000 = 255 \<and> green_of 0xFFFF0000 = 0 \<and> blue_of 0xFFFF0000 = 0
  \<and> alpha_of 0x55000000 = 85 \<and> red_of 0x55000000 = 0"
  by (simp add: alpha_of_def red_of_def green_of_def blue_of_def)



subsection \<open>The two loops\<close>

lemma pixel_index_eq:
  assumes "stride mod 4 = 0" and "0 \<le> (stride div 4) * y + x"
    and "(stride div 4) * y + x < int len"
  shows "pixel_index stride y x len = Some (nat ((stride div 4) * y + x))"
proof -
  have "stride = 4 * (stride div 4)" using assms(1) by presburger
  then have e: "stride * y + 4 * x = 4 * ((stride div 4) * y + x)"
    by (metis distrib_left mult.assoc)
  have d: "(stride * y + 4 * x) div 4 = (stride div 4) * y + x"
    and m: "(stride * y + 4 * x) mod 4 = 0"
    unfolding e by simp_all
  have "0 \<le> stride * y + 4 * x" unfolding e using assms(2) by simp
  then show ?thesis unfolding pixel_index_def d m using assms(2,3) by simp
qed

lemma cols_loop_result:
  assumes "stride mod 4 = 0" and "0 \<le> (stride div 4) * y" and "0 \<le> x"
    and "(stride div 4) * y + width \<le> int (length dat)"
  shows "\<exists>dat'. cols_loop width stride y x dat = Some dat' \<and> length dat' = length dat
     \<and> (\<forall>i < length dat. dat' ! i =
          (if (stride div 4) * y + x \<le> int i \<and> int i < (stride div 4) * y + width
           then luminance_pixel (dat ! i) else dat ! i))"
  using assms
proof (induction width stride y x dat rule: cols_loop.induct)
  case (1 width stride y x dat)
  let ?q = "stride div 4"
  show ?case
  proof (cases "x < width")
    case False
    then show ?thesis by (subst cols_loop.simps) auto
  next
    case True
    let ?k = "nat (?q * y + x)"
    let ?d1 = "dat[?k := luminance_pixel (dat ! ?k)]"
    have lt: "?q * y + x < int (length dat)" using True "1.prems"(4) by linarith
    have nn: "0 \<le> ?q * y + x" using "1.prems"(2,3) by linarith
    have pi: "pixel_index stride y x (length dat) = Some ?k"
      using pixel_index_eq [OF "1.prems"(1) nn lt] .
    have k: "?k < length dat" using lt nn by linarith
    have "\<exists>dat'. cols_loop width stride y (x + 1) ?d1 = Some dat' \<and> length dat' = length ?d1
       \<and> (\<forall>i < length ?d1. dat' ! i =
          (if ?q * y + (x + 1) \<le> int i \<and> int i < ?q * y + width
           then luminance_pixel (?d1 ! i) else ?d1 ! i))"
      using "1.IH" [OF True pi] "1.prems" by simp
    then obtain dat' where r: "cols_loop width stride y (x + 1) ?d1 = Some dat'"
      and len: "length dat' = length dat"
      and el: "\<And>i. i < length dat \<Longrightarrow> dat' ! i =
          (if ?q * y + (x + 1) \<le> int i \<and> int i < ?q * y + width
           then luminance_pixel (?d1 ! i) else ?d1 ! i)"
      by auto
    have c: "cols_loop width stride y x dat = Some dat'"
      by (subst cols_loop.simps) (simp add: True pi r)
    have "dat' ! i =
          (if ?q * y + x \<le> int i \<and> int i < ?q * y + width
           then luminance_pixel (dat ! i) else dat ! i)" if i: "i < length dat" for i
    proof (cases "i = ?k")
      case True
      then have "int i = ?q * y + x" using nn by simp
      then show ?thesis using el [OF i] k \<open>x < width\<close> True by simp
    next
      case False
      then have "int i \<noteq> ?q * y + x" by linarith
      then show ?thesis using el [OF i] False by auto
    qed
    then show ?thesis using c len by blast
  qed
qed

lemma row_position:
  fixes q width y i :: int
  assumes "0 \<le> width" and "width \<le> q" and "0 < q"
  shows "(q * y \<le> i \<and> i < q * y + width) \<longleftrightarrow> (i div q = y \<and> i mod q < width)"
proof
  assume a: "q * y \<le> i \<and> i < q * y + width"
  have e: "i = q * y + (i - q * y)" by simp
  have r: "0 \<le> i - q * y" "i - q * y < q" using a assms(2) by linarith+
  have "i div q = y" using int_div_pos_eq [OF e r] .
  moreover have "i mod q = i - q * y" using int_mod_pos_eq [OF e r] .
  ultimately show "i div q = y \<and> i mod q < width" using a by linarith
next
  assume a: "i div q = y \<and> i mod q < width"
  have "i = q * (i div q) + i mod q" by simp
  then have "i = q * y + i mod q" using a by simp
  moreover have "0 \<le> i mod q" using assms(3) by simp
  ultimately show "q * y \<le> i \<and> i < q * y + width" using a by linarith
qed

lemma div_lt_rows:
  fixes q height i :: int
  assumes "0 < q" and "i < q * height"
  shows "i div q < height"
proof (rule ccontr)
  assume "\<not> i div q < height"
  then have "q * height \<le> q * (i div q)" using assms(1) by (simp add: mult_left_mono)
  moreover have "i = q * (i div q) + i mod q" by simp
  moreover have "0 \<le> i mod q" using assms(1) by simp
  ultimately show False using assms(2) by linarith
qed

lemma words_per_row_pos:
  fixes q height :: int
  assumes "0 \<le> q" and "int i < q * height"
  shows "0 < q"
proof (cases "q = 0")
  case True
  then show ?thesis using assms(2) by simp
next
  case False
  then show ?thesis using assms(1) by simp
qed

lemma rows_loop_result:
  assumes "stride mod 4 = 0" and "0 \<le> width" and "width \<le> stride div 4" and "0 \<le> y"
    and "y \<le> height" and "(stride div 4) * height = int (length dat)"
  shows "\<exists>dat'. rows_loop width height stride y dat = Some dat' \<and> length dat' = length dat
     \<and> (\<forall>i < length dat. dat' ! i =
          (if y \<le> int i div (stride div 4) \<and> int i mod (stride div 4) < width
           then luminance_pixel (dat ! i) else dat ! i))"
  using assms
proof (induction width height stride y dat rule: rows_loop.induct)
  case (1 width height stride y dat)
  let ?q = "stride div 4"
  show ?case
  proof (cases "y < height")
    case False
    then have yh: "y = height" using "1.prems"(5) by simp
    have "\<not> (y \<le> int i div ?q \<and> int i mod ?q < width)" if "i < length dat" for i
    proof -
      have lt: "int i < ?q * height" using that "1.prems"(6) by simp
      have "0 \<le> ?q" using "1.prems"(2,3) by simp
      then have "0 < ?q" using lt by (rule words_per_row_pos)
      then have "int i div ?q < height" using lt by (rule div_lt_rows)
      then show ?thesis using yh by simp
    qed
    then show ?thesis using False by (subst rows_loop.simps) auto
  next
    case True
    have q0: "0 \<le> ?q" using "1.prems"(2,3) by simp
    have b0: "0 \<le> ?q * y" using q0 "1.prems"(4) by simp
    have "?q * (y + 1) \<le> ?q * height" using True q0 by (simp add: mult_left_mono)
    then have fit: "?q * y + width \<le> int (length dat)"
      using "1.prems"(3,6) by (simp add: distrib_left)
    from cols_loop_result [OF "1.prems"(1) b0 _ fit, of 0]
    obtain d1 where c: "cols_loop width stride y 0 dat = Some d1"
      and l1: "length d1 = length dat"
      and e1: "\<And>i. i < length dat \<Longrightarrow> d1 ! i =
          (if ?q * y \<le> int i \<and> int i < ?q * y + width
           then luminance_pixel (dat ! i) else dat ! i)"
      by auto
    have "\<exists>dat'. rows_loop width height stride (y + 1) d1 = Some dat' \<and> length dat' = length d1
       \<and> (\<forall>i < length d1. dat' ! i =
          (if y + 1 \<le> int i div ?q \<and> int i mod ?q < width
           then luminance_pixel (d1 ! i) else d1 ! i))"
      using "1.IH" [OF True c] "1.prems" True l1 by simp
    then obtain dat' where r: "rows_loop width height stride (y + 1) d1 = Some dat'"
      and len: "length dat' = length dat"
      and el: "\<And>i. i < length dat \<Longrightarrow> dat' ! i =
          (if y + 1 \<le> int i div ?q \<and> int i mod ?q < width
           then luminance_pixel (d1 ! i) else d1 ! i)"
      using l1 by auto
    have s: "rows_loop width height stride y dat = Some dat'"
      by (subst rows_loop.simps) (simp add: True c r)
    have "dat' ! i =
          (if y \<le> int i div ?q \<and> int i mod ?q < width
           then luminance_pixel (dat ! i) else dat ! i)" if i: "i < length dat" for i
    proof -
      have "int i < ?q * height" using i "1.prems"(6) by simp
      with q0 have qp: "0 < ?q" by (rule words_per_row_pos)
      note rp = row_position [OF "1.prems"(2,3) qp, of y "int i"]
      show ?thesis
      proof (cases "int i div ?q = y \<and> int i mod ?q < width")
        case True
        then show ?thesis using el [OF i] e1 [OF i] rp by simp
      next
        case False
        then show ?thesis using el [OF i] e1 [OF i] rp by auto
      qed
    qed
    then show ?thesis using s len by blast
  qed
qed


lemma byte_offset_div:
  fixes stride x y :: int
  assumes "stride mod 4 = 0"
  shows "(stride * y + 4 * x) div 4 = (stride div 4) * y + x"
proof -
  have "stride = 4 * (stride div 4)" using assms by presburger
  then have e: "stride * y + 4 * x = 4 * ((stride div 4) * y + x)"
    by (metis distrib_left mult.assoc)
  show ?thesis unfolding e by simp
qed

lemma surface_ok_words:
  assumes "surface_ok s"
  shows "s_stride s mod 4 = 0" and "0 \<le> s_width s" and "s_width s \<le> s_stride s div 4"
    and "0 \<le> s_height s" and "(s_stride s div 4) * s_height s = int (length (s_data s))"
proof -
  show m: "s_stride s mod 4 = 0" and "0 \<le> s_width s" and "0 \<le> s_height s"
    using assms by (simp_all add: surface_ok_def)
  have e: "s_stride s = 4 * (s_stride s div 4)" using m by presburger
  have "4 * s_width s \<le> s_stride s" using assms by (simp add: surface_ok_def)
  then show "s_width s \<le> s_stride s div 4" using e by linarith
  have "s_stride s * s_height s = 4 * int (length (s_data s))"
    using assms by (simp add: surface_ok_def)
  then have "4 * ((s_stride s div 4) * s_height s) = 4 * int (length (s_data s))"
    using e by (metis mult.assoc)
  then show "(s_stride s div 4) * s_height s = int (length (s_data s))" by simp
qed

subsection \<open>The claim\<close>

text \<open>
  Claim C5 (luminance mask). For every canvas whose surface the loops can walk,
  \<open>convertToLuminanceMask\<close> returns, and changes nothing but the pixel data: size, stride
  and origin stay. The pixel at column \<open>x\<close> of row \<open>y\<close>, addressed row by row through the
  stride, is replaced by the pixel whose alpha is \<open>(2R + 3G + B) / 6\<close> of the old pixel,
  in integer division, and whose red, green and blue are 0; for an old pixel with
  \<open>R = 255\<close>, \<open>G = 0\<close>, \<open>B = 0\<close> the new alpha is 85. The words of the buffer that hold no
  pixel (the padding of the rows) are not written.
\<close>

theorem Canvas_luminance_mask:
  assumes "surface_ok (m_surface canvas)"
  shows "\<exists>canvas'. Canvas_convertToLuminanceMask canvas = Some canvas'
     \<and> m_x canvas' = m_x canvas \<and> m_y canvas' = m_y canvas
     \<and> s_width (m_surface canvas') = s_width (m_surface canvas)
     \<and> s_height (m_surface canvas') = s_height (m_surface canvas)
     \<and> s_stride (m_surface canvas') = s_stride (m_surface canvas)
     \<and> length (s_data (m_surface canvas')) = length (s_data (m_surface canvas))
     \<and> (\<forall>x y. 0 \<le> x \<and> x < s_width (m_surface canvas) \<and> 0 \<le> y \<and> y < s_height (m_surface canvas) \<longrightarrow>
           surface_pixel (m_surface canvas') x y = luminance_pixel (surface_pixel (m_surface canvas) x y)
           \<and> alpha_of (surface_pixel (m_surface canvas') x y) =
               (2 * red_of (surface_pixel (m_surface canvas) x y)
                 + 3 * green_of (surface_pixel (m_surface canvas) x y)
                 + blue_of (surface_pixel (m_surface canvas) x y)) div 6
           \<and> red_of (surface_pixel (m_surface canvas') x y) = 0
           \<and> green_of (surface_pixel (m_surface canvas') x y) = 0
           \<and> blue_of (surface_pixel (m_surface canvas') x y) = 0
           \<and> (red_of (surface_pixel (m_surface canvas) x y) = 255
                \<and> green_of (surface_pixel (m_surface canvas) x y) = 0
                \<and> blue_of (surface_pixel (m_surface canvas) x y) = 0
              \<longrightarrow> alpha_of (surface_pixel (m_surface canvas') x y) = 85))
     \<and> (\<forall>i < length (s_data (m_surface canvas)).
           (\<forall>x y. 0 \<le> x \<and> x < s_width (m_surface canvas) \<and> 0 \<le> y \<and> y < s_height (m_surface canvas) \<longrightarrow>
               i \<noteq> nat ((s_stride (m_surface canvas) * y + 4 * x) div 4))
           \<longrightarrow> s_data (m_surface canvas') ! i = s_data (m_surface canvas) ! i)"
proof -
  let ?s = "m_surface canvas"
  let ?q = "s_stride ?s div 4"
  let ?dat = "s_data ?s"
  note w = surface_ok_words [OF assms]
  from rows_loop_result [OF w(1,2,3) _ w(4,5)]
  obtain dat' where r: "rows_loop (s_width ?s) (s_height ?s) (s_stride ?s) 0 ?dat = Some dat'"
    and len: "length dat' = length ?dat"
    and el: "\<And>i. i < length ?dat \<Longrightarrow> dat' ! i =
          (if 0 \<le> int i div ?q \<and> int i mod ?q < s_width ?s
           then luminance_pixel (?dat ! i) else ?dat ! i)"
    by auto
  let ?c = "canvas\<lparr>m_surface := ?s\<lparr>s_data := dat'\<rparr>\<rparr>"
  have run: "Canvas_convertToLuminanceMask canvas = Some ?c"
    by (simp add: Canvas_convertToLuminanceMask_def r)
  have px: "surface_pixel (m_surface ?c) x y = luminance_pixel (surface_pixel ?s x y)"
    if b: "0 \<le> x" "x < s_width ?s" "0 \<le> y" "y < s_height ?s" for x y
  proof -
    have qp: "0 < ?q" using b(1,2) w(3) by linarith
    have "?q * (y + 1) \<le> ?q * s_height ?s" using b(4) qp by (simp add: mult_left_mono)
    then have lt: "?q * y + x < int (length ?dat)"
      using b(2) w(3,5) by (simp add: distrib_left)
    have nn: "0 \<le> ?q * y + x" using b(1,3) qp by simp
    let ?k = "nat (?q * y + x)"
    have k: "?k < length ?dat" using lt nn by linarith
    have ik: "int ?k = ?q * y + x" using nn by simp
    have "?q * y \<le> int ?k \<and> int ?k < ?q * y + s_width ?s" using ik b(1,2) by linarith
    then have "int ?k div ?q = y \<and> int ?k mod ?q < s_width ?s"
      using row_position [OF w(2,3) qp, of y "int ?k"] by blast
    then have "dat' ! ?k = luminance_pixel (?dat ! ?k)"
      using el [OF k] b(3) by simp
    then show ?thesis
      by (simp add: surface_pixel_def byte_offset_div [OF w(1)])
  qed
  have pad: "dat' ! i = ?dat ! i"
    if i: "i < length ?dat"
      and np: "\<forall>x y. 0 \<le> x \<and> x < s_width ?s \<and> 0 \<le> y \<and> y < s_height ?s \<longrightarrow>
               i \<noteq> nat ((s_stride ?s * y + 4 * x) div 4)" for i
  proof -
    have lt: "int i < ?q * s_height ?s" using i w(5) by simp
    have q0: "0 \<le> ?q" using w(2,3) by simp
    then have qp: "0 < ?q" using lt by (rule words_per_row_pos)
    have "\<not> int i mod ?q < s_width ?s"
    proof
      assume m: "int i mod ?q < s_width ?s"
      have "0 \<le> int i mod ?q" using qp by simp
      moreover have "0 \<le> int i div ?q" using qp by (simp add: pos_imp_zdiv_nonneg_iff)
      moreover have "int i div ?q < s_height ?s" using qp lt by (rule div_lt_rows)
      ultimately have "i \<noteq> nat ((s_stride ?s * (int i div ?q) + 4 * (int i mod ?q)) div 4)"
        using np m by blast
      then show False by (simp add: byte_offset_div [OF w(1)])
    qed
    then show ?thesis using el [OF i] by simp
  qed
  have ch: "alpha_of (luminance_pixel p) = (2 * red_of p + 3 * green_of p + blue_of p) div 6"
    "red_of (luminance_pixel p) = 0" "green_of (luminance_pixel p) = 0"
    "blue_of (luminance_pixel p) = 0" for p
    using luminance_pixel_channels [of p] by simp_all
  show ?thesis
  proof (intro exI conjI allI impI)
    show "Canvas_convertToLuminanceMask canvas = Some ?c" by (rule run)
  qed (use px pad len in \<open>simp_all add: ch\<close>)
qed

text \<open>
  The surface of 2 by 2 pixels with padded rows: the red pixels become \<open>0x55000000\<close>
  (alpha 85), the green pixel \<open>0x7F000000\<close> (alpha 127), the padding stays.
\<close>

lemma demo_surface_converted: "Canvas_convertToLuminanceMask \<lparr>m_surface = demo_surface, m_x = 3, m_y = 4\<rparr>
   = Some \<lparr>m_surface = demo_surface\<lparr>s_data := [0x55000000, 0x55000000, 0xDEADBEEF, 0x55000000, 0x7F000000, 0x12345678]\<rparr>, m_x = 3, m_y = 4\<rparr>"
  by (simp add: Canvas_convertToLuminanceMask_def demo_surface_def rows_loop.simps cols_loop.simps
      pixel_index_def luminance_pixel_def)

theorem Canvas_luminance_mask_witness:
  "surface_ok demo_surface
   \<and> Canvas_convertToLuminanceMask \<lparr>m_surface = demo_surface, m_x = 3, m_y = 4\<rparr>
     = Some \<lparr>m_surface = demo_surface\<lparr>s_data := [0x55000000, 0x55000000, 0xDEADBEEF, 0x55000000, 0x7F000000, 0x12345678]\<rparr>, m_x = 3, m_y = 4\<rparr>
   \<and> (\<exists>canvas'. Canvas_convertToLuminanceMask \<lparr>m_surface = demo_surface, m_x = 3, m_y = 4\<rparr> = Some canvas'
        \<and> alpha_of (surface_pixel (m_surface canvas') 0 0) = 85
        \<and> red_of (surface_pixel (m_surface canvas') 0 0) = 0)"
proof -
  have ok: "surface_ok demo_surface"
    by (simp add: surface_ok_def demo_surface_def INT_MAX_def)
  have red: "red_of (surface_pixel demo_surface 0 0) = 255 \<and> green_of (surface_pixel demo_surface 0 0) = 0
      \<and> blue_of (surface_pixel demo_surface 0 0) = 0"
    by (simp add: surface_pixel_def demo_surface_def red_of_def green_of_def blue_of_def)
  have d: "s_width demo_surface = 2" "s_height demo_surface = 2" by (simp_all add: demo_surface_def)
  from Canvas_luminance_mask [of "\<lparr>m_surface = demo_surface, m_x = 3, m_y = 4\<rparr>"] ok
  obtain canvas' where c: "Canvas_convertToLuminanceMask \<lparr>m_surface = demo_surface, m_x = 3, m_y = 4\<rparr> = Some canvas'"
    and p: "\<forall>x y. 0 \<le> x \<and> x < 2 \<and> 0 \<le> y \<and> y < 2 \<longrightarrow>
           red_of (surface_pixel (m_surface canvas') x y) = 0
           \<and> (red_of (surface_pixel demo_surface x y) = 255
                \<and> green_of (surface_pixel demo_surface x y) = 0
                \<and> blue_of (surface_pixel demo_surface x y) = 0
              \<longrightarrow> alpha_of (surface_pixel (m_surface canvas') x y) = 85)"
    by (auto simp: d)
  from p red have "alpha_of (surface_pixel (m_surface canvas') 0 0) = 85
        \<and> red_of (surface_pixel (m_surface canvas') 0 0) = 0"
    by simp
  with c ok demo_surface_converted show ?thesis by blast
qed


end
